theory Spec2Isabelle
  imports Complex_Main "HOL-Library.Multiset" "HOL-Library.AList"
begin

section \<open>Strings and paths\<close>

text \<open>
  Go strings are byte sequences; they are modelled as \<open>string\<close> (a list of \<open>char\<close>,
  one per byte). \<open>hasPrefix\<close> and \<open>hasSuffix\<close> are \<^verbatim>\<open>strings.HasPrefix\<close> and
  \<^verbatim>\<open>strings.HasSuffix\<close>. The path separator is the one of Unix, \<open>/\<close>.
\<close>

definition hasPrefix :: "string \<Rightarrow> string \<Rightarrow> bool" where
  "hasPrefix s p = (take (length p) s = p)"

definition hasSuffix :: "string \<Rightarrow> string \<Rightarrow> bool" where
  "hasSuffix s x = (length x \<le> length s \<and> drop (length s - length x) s = x)"

definition sep :: char where
  "sep = CHR ''/''"

text \<open>\<^verbatim>\<open>strings.Split(s, "/")\<close>: the pieces between separators; never the empty list.\<close>

fun splitSep :: "string \<Rightarrow> string list" where
  "splitSep [] = [[]]"
| "splitSep (c # cs) =
     (if c = sep then [] # splitSep cs
      else (case splitSep cs of [] \<Rightarrow> [[c]] | p # ps \<Rightarrow> (c # p) # ps))"

fun joinSep :: "string list \<Rightarrow> string" where
  "joinSep [] = []"
| "joinSep [p] = p"
| "joinSep (p # q # ps) = p @ sep # joinSep (q # ps)"

text \<open>
  \<^verbatim>\<open>filepath.Clean\<close> on Unix: empty and \<open>.\<close> elements are dropped, an inner \<open>..\<close>
  removes the element before it, a \<open>..\<close> at the start of a rooted path is dropped, and
  the empty result is \<open>.\<close>. \<open>cleanElems\<close> keeps the elements of the result in reverse.
\<close>

fun cleanElems :: "bool \<Rightarrow> string list \<Rightarrow> string list \<Rightarrow> string list" where
  "cleanElems rooted acc [] = acc"
| "cleanElems rooted acc (e # es) =
     (if e = [] \<or> e = ''.'' then cleanElems rooted acc es
      else if e = ''..'' then
        (case acc of
           [] \<Rightarrow> if rooted then cleanElems rooted [] es else cleanElems rooted [''..''] es
         | a # as \<Rightarrow> if a = ''..'' then cleanElems rooted (''..'' # a # as) es
                    else cleanElems rooted as es)
      else cleanElems rooted (e # acc) es)"

definition filepathClean :: "string \<Rightarrow> string" where
  "filepathClean p =
     (let rooted = (p \<noteq> [] \<and> hd p = sep);
          out = (if rooted then [sep] else []) @ joinSep (rev (cleanElems rooted [] (splitSep p)))
      in if out = [] then ''.'' else out)"

section \<open>Floating point\<close>

text \<open>
  The percentages are \<^verbatim>\<open>float64\<close>, the binary64 format of IEEE 754. A finite value is
  the real number that it denotes; the infinities and NaN are kept apart, so that their
  absence is a property to prove. The sign of a zero is not modelled.

  Every operation yields its exact result rounded to the nearest \<^verbatim>\<open>float64\<close>, a tie
  going to the even significand. \<open>roundEven\<close> rounds a real number to the nearest integer
  in this way. \<open>exponent x\<close> is the binary exponent of \<open>x \<ge> 0\<close>, the \<open>e\<close> with
  \<open>2^e \<le> x < 2^(e+1)\<close>, never taken below that of the smallest normal number, \<open>-1022\<close>;
  \<open>binade\<close> finds it by doubling or halving \<open>x\<close>, in at most 2200 steps, more than the
  exponents of the format and of the numbers that round to an infinity or to 0 ask for.
  The significand has 53 bits, so the values next to \<open>x\<close> are the multiples of
  \<open>ulp x = 2^(exponent x - 52)\<close>, and \<open>nearest x\<close> is the one that \<open>x\<close> rounds to. A result
  of magnitude \<open>2^1024\<close> or more is an infinity.
\<close>

datatype float64 = Finite real | Infinite bool | NaN

definition roundEven :: "real \<Rightarrow> int" where
  "roundEven x =
     (let n = \<lfloor>x\<rfloor>; d = x - of_int n
      in if d < 1 / 2 then n else if 1 / 2 < d then n + 1 else if even n then n else n + 1)"

fun binade :: "nat \<Rightarrow> real \<Rightarrow> int" where
  "binade 0 x = 0"
| "binade (Suc n) x =
     (if x < 1 then binade n (2 * x) - 1 else if 2 \<le> x then binade n (x / 2) + 1 else 0)"

definition exponent :: "real \<Rightarrow> int" where
  "exponent x = max (binade 2200 x) (- 1022)"

definition ulp :: "real \<Rightarrow> real" where
  "ulp x = 2 powi (exponent x - 52)"

definition nearest :: "real \<Rightarrow> real" where
  "nearest x = of_int (roundEven (x / ulp x)) * ulp x"

definition round64 :: "real \<Rightarrow> float64" where
  "round64 x =
     (let r = nearest \<bar>x\<bar>
      in if 2 ^ 1024 \<le> r then Infinite (0 < x) else Finite (if x < 0 then - r else r))"

text \<open>
  The conversion \<^verbatim>\<open>float64(n)\<close> of an integer, the division and the multiplication.
\<close>

definition fromInt :: "int \<Rightarrow> float64" where
  "fromInt n = round64 (of_int n)"

fun fdiv :: "float64 \<Rightarrow> float64 \<Rightarrow> float64" where
  "fdiv (Finite a) (Finite b) =
     (if b \<noteq> 0 then round64 (a / b) else if a = 0 then NaN else Infinite (0 < a))"
| "fdiv (Finite a) (Infinite t) = Finite 0"
| "fdiv (Infinite s) (Finite b) = Infinite (s = (0 \<le> b))"
| "fdiv (Infinite s) (Infinite t) = NaN"
| "fdiv NaN y = NaN"
| "fdiv x NaN = NaN"

fun fmul :: "float64 \<Rightarrow> float64 \<Rightarrow> float64" where
  "fmul (Finite a) (Finite b) = round64 (a * b)"
| "fmul (Finite a) (Infinite t) = (if a = 0 then NaN else Infinite (t = (0 < a)))"
| "fmul (Infinite s) (Finite b) = (if b = 0 then NaN else Infinite (s = (0 < b)))"
| "fmul (Infinite s) (Infinite t) = Infinite (s = t)"
| "fmul NaN y = NaN"
| "fmul x NaN = NaN"

section \<open>The scanner's data\<close>

text \<open>
  Go's \<^verbatim>\<open>int\<close> counters count files, packages and pattern matches of one scan; they are
  modelled as unbounded \<open>int\<close>, since no counter can reach \<open>2^63\<close>.
\<close>

datatype Language = LangGo | LangPython | LangRust

record Package =
  Path :: string
  RelPath :: string
  Language :: Language
  HasBuildFile :: bool
  HasTestFiles :: bool
  SourceFileCount :: int
  TestFileCount :: int
  TestTargetCount :: int
  LibraryTargets :: int
  BinaryTargets :: int

record ScanResult =
  RepoPath :: string
  GoPackages :: "Package list"
  PythonPackages :: "Package list"
  RustPackages :: "Package list"
  TotalBUILDs :: int
  TotalGoFiles :: int
  TotalGoTests :: int
  TotalGoTestRules :: int
  TotalPythonFiles :: int
  TotalPythonTests :: int
  TotalPyTestRules :: int
  TotalRustFiles :: int
  TotalRustTests :: int
  TotalRustTestRules :: int

section \<open>Metrics: language summaries\<close>

text \<open>
  Several Go structs share field names; the fields of \<^verbatim>\<open>LanguageSummary\<close> keep theirs
  (but \<open>ls_Language\<close>), those of \<^verbatim>\<open>DirectoryMetrics\<close>, \<^verbatim>\<open>Summary\<close>, \<^verbatim>\<open>PackageInfo\<close> and
  \<^verbatim>\<open>Report\<close> carry the prefixes \<open>dm_\<close>, \<open>sum_\<close>, \<open>pi_\<close> and \<open>rep_\<close> where they would clash.
\<close>

record LanguageSummary =
  ls_Language :: string
  BazelizationPct :: float64
  TestCoveragePct :: float64
  BazelizedTestsPct :: float64
  TotalPackages :: int
  TotalSourceFiles :: int
  TotalTestFiles :: int
  PackagesWithBuild :: int
  PackagesWithTests :: int
  TotalTestTargets :: int

text \<open>The body of the first loop of \<^verbatim>\<open>calculateLanguageSummary\<close>.\<close>

definition tally :: "Package \<Rightarrow> LanguageSummary \<Rightarrow> LanguageSummary" where
  "tally pkg summary =
     (let summary = summary\<lparr>TotalSourceFiles := TotalSourceFiles summary + SourceFileCount pkg,
                             TotalTestFiles := TotalTestFiles summary + TestFileCount pkg,
                             TotalTestTargets := TotalTestTargets summary + TestTargetCount pkg\<rparr>;
          summary = (if HasBuildFile pkg
                     then summary\<lparr>PackagesWithBuild := PackagesWithBuild summary + 1\<rparr>
                     else summary)
      in if HasTestFiles pkg
         then summary\<lparr>PackagesWithTests := PackagesWithTests summary + 1\<rparr>
         else summary)"

text \<open>The body of its second loop, which counts the packages with bazelized tests.\<close>

definition countBazelized :: "Package \<Rightarrow> int \<Rightarrow> int" where
  "countBazelized pkg n = (if HasTestFiles pkg \<and> TestTargetCount pkg > 0 then n + 1 else n)"

definition calculateLanguageSummary :: "string \<Rightarrow> Package list \<Rightarrow> LanguageSummary" where
  "calculateLanguageSummary lang packages =
     (let summary = \<lparr>ls_Language = lang, BazelizationPct = Finite 0, TestCoveragePct = Finite 0,
                      BazelizedTestsPct = Finite 0, TotalPackages = int (length packages),
                      TotalSourceFiles = 0, TotalTestFiles = 0, PackagesWithBuild = 0,
                      PackagesWithTests = 0, TotalTestTargets = 0\<rparr>;
          summary = fold tally packages summary;
          summary = (if TotalPackages summary > 0
                     then summary\<lparr>
                       BazelizationPct :=
                         fmul (fdiv (fromInt (PackagesWithBuild summary))
                                    (fromInt (TotalPackages summary))) (Finite 100),
                       TestCoveragePct :=
                         fmul (fdiv (fromInt (PackagesWithTests summary))
                                    (fromInt (TotalPackages summary))) (Finite 100)\<rparr>
                     else summary);
          packagesWithBazelizedTests = fold countBazelized packages 0
      in if PackagesWithTests summary > 0
         then summary\<lparr>BazelizedTestsPct :=
                fmul (fdiv (fromInt packagesWithBazelizedTests)
                           (fromInt (PackagesWithTests summary))) (Finite 100)\<rparr>
         else summary)"

section \<open>Metrics: the directory breakdown\<close>

record DirectoryMetrics =
  Name :: string
  dm_TotalPackages :: int
  BazelizedPackages :: int
  dm_PackagesWithTests :: int
  dm_BazelizationPct :: float64
  dm_TestCoveragePct :: float64

definition getTopLevelDir :: "string \<Rightarrow> string" where
  "getTopLevelDir p = (case splitSep (filepathClean p) of [] \<Rightarrow> [] | part # parts \<Rightarrow> part)"

definition topDirOf :: "Package \<Rightarrow> string" where
  "topDirOf pkg =
     (let topDir = getTopLevelDir (RelPath pkg)
      in if topDir = [] \<or> topDir = ''.'' then ''(root)'' else topDir)"

text \<open>
  The Go map \<^verbatim>\<open>dirMap\<close> is an association list in the order of first insertion.
  \<open>groupPackage\<close> is the body of the grouping loop: get or create the entry of the
  package's top-level directory, then count the package in it.
\<close>

definition groupPackage ::
  "Package \<Rightarrow> (string \<times> DirectoryMetrics) list \<Rightarrow> (string \<times> DirectoryMetrics) list" where
  "groupPackage pkg dirMap =
     (let topDir = topDirOf pkg;
          dm = (case map_of dirMap topDir of
                  Some dm \<Rightarrow> dm
                | None \<Rightarrow> \<lparr>Name = topDir, dm_TotalPackages = 0, BazelizedPackages = 0,
                           dm_PackagesWithTests = 0, dm_BazelizationPct = Finite 0,
                           dm_TestCoveragePct = Finite 0\<rparr>);
          dm = dm\<lparr>dm_TotalPackages := dm_TotalPackages dm + 1\<rparr>;
          dm = (if HasBuildFile pkg then dm\<lparr>BazelizedPackages := BazelizedPackages dm + 1\<rparr>
                else dm);
          dm = (if HasTestFiles pkg
                then dm\<lparr>dm_PackagesWithTests := dm_PackagesWithTests dm + 1\<rparr> else dm)
      in AList.update topDir dm dirMap)"

text \<open>The body of the second loop: the two percentages of one directory.\<close>

definition dirPercentages :: "DirectoryMetrics \<Rightarrow> DirectoryMetrics" where
  "dirPercentages dm =
     (if dm_TotalPackages dm > 0
      then dm\<lparr>dm_BazelizationPct :=
                 fmul (fdiv (fromInt (BazelizedPackages dm)) (fromInt (dm_TotalPackages dm)))
                      (Finite 100),
               dm_TestCoveragePct :=
                 fmul (fdiv (fromInt (dm_PackagesWithTests dm)) (fromInt (dm_TotalPackages dm)))
                      (Finite 100)\<rparr>
      else dm)"

text \<open>
  \<^verbatim>\<open>sort.Slice\<close> with the insertion sort that Go runs on a slice of at most twelve
  elements: each element moves left while it is less than its left neighbour.
  \<open>insertLeft\<close> works on the sorted prefix in reverse, nearest neighbour first. On a
  longer slice Go sorts by another method, which may leave elements that compare equal
  in another order; the slices sorted below either have distinct keys (the relative
  paths of the packages of one language) or are taken in an arbitrary order before the
  sort (the directory entries), so that no outcome is lost.
\<close>

fun insertLeft :: "('a \<Rightarrow> 'a \<Rightarrow> bool) \<Rightarrow> 'a \<Rightarrow> 'a list \<Rightarrow> 'a list" where
  "insertLeft lt x [] = [x]"
| "insertLeft lt x (y # ys) = (if lt x y then y # insertLeft lt x ys else x # y # ys)"

definition sortSlice :: "('a \<Rightarrow> 'a \<Rightarrow> bool) \<Rightarrow> 'a list \<Rightarrow> 'a list" where
  "sortSlice lt xs = rev (fold (insertLeft lt) xs [])"

text \<open>
  Go does not specify the order in which \<^verbatim>\<open>range\<close> visits a map, and randomises it:
  \<open>rangeOrder m vs\<close> says that \<open>vs\<close> lists the values of the map \<open>m\<close> in one of the
  orders a \<^verbatim>\<open>range\<close> loop may take.
\<close>

definition rangeOrder :: "('k \<times> 'v) list \<Rightarrow> 'v list \<Rightarrow> bool" where
  "rangeOrder m vs = (mset vs = mset (map snd m))"

definition morePackages :: "DirectoryMetrics \<Rightarrow> DirectoryMetrics \<Rightarrow> bool" where
  "morePackages a b = (dm_TotalPackages a > dm_TotalPackages b)"

inductive calculateDirectoryBreakdown :: "Package list \<Rightarrow> DirectoryMetrics list \<Rightarrow> bool" where
  breakdown:
    "rangeOrder (fold groupPackage packages []) dms \<Longrightarrow>
     calculateDirectoryBreakdown packages (sortSlice morePackages (map dirPercentages dms))"

section \<open>The manifest target counter\<close>

text \<open>
  Each of the nine patterns of \<^verbatim>\<open>NewScanner\<close> has the shape \<^verbatim>\<open>(?m)^\s*NAME\s*\(\<close>: at
  the start of a line, white space, the rule name, white space, an opening parenthesis.
  \<open>LineRule NAME\<close> stands for the compiled pattern. The class \<^verbatim>\<open>\s\<close> of Go's regexp
  package is tab, newline, form feed, carriage return and space, so the white space of a
  match may run over line ends.
\<close>

datatype regexp = LineRule string

definition newline :: char where
  "newline = CHR 0x0A"

definition isSpace :: "char \<Rightarrow> bool" where
  "isSpace c = (c = CHR 0x09 \<or> c = CHR 0x0A \<or> c = CHR 0x0C \<or> c = CHR 0x0D \<or> c = CHR 0x20)"

text \<open>
  \<open>matchHere\<close> matches the part of the pattern after the anchor at the head of \<open>s\<close> and
  returns what follows the match. Both runs of white space are greedy and nothing
  after them can be white space, so there is at most one way to match.
\<close>

definition skipSpace :: "string \<Rightarrow> string" where
  "skipSpace s = dropWhile isSpace s"

fun expectParen :: "string \<Rightarrow> string option" where
  "expectParen [] = None"
| "expectParen (c # rest) = (if c = CHR ''('' then Some rest else None)"

definition matchHere :: "string \<Rightarrow> string \<Rightarrow> string option" where
  "matchHere name s =
     (let s1 = skipSpace s
      in if hasPrefix s1 name then expectParen (skipSpace (drop (length name) s1)) else None)"

text \<open>
  \<^verbatim>\<open>FindAllString(text, -1)\<close>: the successive leftmost matches, none overlapping an
  earlier one. \<open>bol\<close> says whether the position is the start of the text or follows a
  newline, which is where \<^verbatim>\<open>(?m)^\<close> holds. A match is the text up to what follows it.
\<close>

function findFrom :: "string \<Rightarrow> bool \<Rightarrow> string \<Rightarrow> string list" where
  "findFrom name bol [] = []"
| "findFrom name bol (c # cs) =
     (if bol
      then (case matchHere name (c # cs) of
              Some rest \<Rightarrow> take (length (c # cs) - length rest) (c # cs) # findFrom name False rest
            | None \<Rightarrow> findFrom name (c = newline) cs)
      else findFrom name (c = newline) cs)"
  by pat_completeness auto
termination
proof (relation "measure (\<lambda>(name, bol, s). length s)")
  fix name :: string and bol :: bool and c :: char and cs rest :: string
  assume found: "matchHere name (c # cs) = Some rest"
  let ?s2 = "drop (length name) (skipSpace (c # cs))"
  from found have paren: "expectParen (skipSpace ?s2) = Some rest"
    by (simp add: matchHere_def Let_def split: if_split_asm)
  have "length rest < length (skipSpace ?s2)"
  proof (cases "skipSpace ?s2")
    case Nil
    with paren show ?thesis by simp
  next
    case (Cons d ds)
    with paren show ?thesis by (simp split: if_split_asm)
  qed
  also have "\<dots> \<le> length ?s2"
    unfolding skipSpace_def by (rule length_dropWhile_le)
  also have "\<dots> \<le> length (skipSpace (c # cs))"
    by simp
  also have "\<dots> \<le> length (c # cs)"
    unfolding skipSpace_def by (rule length_dropWhile_le)
  finally show "((name, False, rest), (name, bol, c # cs)) \<in> measure (\<lambda>(name, bol, s). length s)"
    by simp
qed simp_all

fun FindAllString :: "regexp \<Rightarrow> string \<Rightarrow> string list" where
  "FindAllString (LineRule name) text = findFrom name True text"

text \<open>
  \<^verbatim>\<open>bufio.Scanner\<close> with its default line splitter: a line ends at a newline, a last
  unterminated line counts when it is not empty, and one trailing carriage return is
  dropped from each line. A line that does not fit the buffer of \<open>maxScanTokenSize\<close>
  bytes stops the scanner with \<^verbatim>\<open>ErrTooLong\<close>.
\<close>

fun scanLines :: "string \<Rightarrow> string \<Rightarrow> string list" where
  "scanLines cur [] = (if cur = [] then [] else [cur])"
| "scanLines cur (c # cs) =
     (if c = newline then cur # scanLines [] cs else scanLines (cur @ [c]) cs)"

definition dropCR :: "string \<Rightarrow> string" where
  "dropCR l = (if l \<noteq> [] \<and> last l = CHR 0x0D then butlast l else l)"

definition maxScanTokenSize :: nat where
  "maxScanTokenSize = 64 * 1024"

datatype error = ErrOpen | ErrTooLong

record buildTargets =
  goTests :: int
  goLibs :: int
  goBins :: int
  pyTests :: int
  pyLibs :: int
  pyBins :: int
  rustTests :: int
  rustLibs :: int
  rustBins :: int

record Scanner =
  repoPath :: string
  skipDirs :: "string list"
  goTestRegex :: regexp
  goLibRegex :: regexp
  goBinRegex :: regexp
  pyTestRegex :: regexp
  pyLibRegex :: regexp
  pyBinRegex :: regexp
  rustTestRegex :: regexp
  rustLibRegex :: regexp
  rustBinRegex :: regexp

text \<open>The map \<^verbatim>\<open>skipDirs\<close> holds \<open>true\<close> for its keys only; it is the list of its keys.\<close>

definition NewScanner :: "string \<Rightarrow> Scanner" where
  "NewScanner rp =
     \<lparr>repoPath = rp,
      skipDirs = [''.git'', ''bazel-bin'', ''bazel-out'', ''bazel-testlogs'', ''node_modules'',
                  ''.cache'', ''vendor'', ''__pycache__'', ''target'', ''.venv'', ''venv''],
      goTestRegex = LineRule ''go_test'',
      goLibRegex = LineRule ''go_library'',
      goBinRegex = LineRule ''go_binary'',
      pyTestRegex = LineRule ''py_test'',
      pyLibRegex = LineRule ''py_library'',
      pyBinRegex = LineRule ''py_binary'',
      rustTestRegex = LineRule ''rust_test'',
      rustLibRegex = LineRule ''rust_library'',
      rustBinRegex = LineRule ''rust_binary''\<rparr>"

text \<open>
  The file is given by what opening and reading it yields: \<open>None\<close> when that fails,
  the bytes otherwise. The Go function returns the counts together with the scanner's
  error; its only caller drops the counts when there is an error, so an error is
  returned alone.
\<close>

definition parseBuildFile :: "Scanner \<Rightarrow> string option \<Rightarrow> error + buildTargets" where
  "parseBuildFile s file =
     (case file of
        None \<Rightarrow> Inl ErrOpen
      | Some bytes \<Rightarrow>
          (let ls = scanLines [] bytes
           in if list_ex (\<lambda>l. maxScanTokenSize \<le> length l) ls then Inl ErrTooLong
              else (let text = concat (map (\<lambda>l. dropCR l @ [newline]) ls)
                    in Inr \<lparr>goTests = int (length (FindAllString (goTestRegex s) text)),
                            goLibs = int (length (FindAllString (goLibRegex s) text)),
                            goBins = int (length (FindAllString (goBinRegex s) text)),
                            pyTests = int (length (FindAllString (pyTestRegex s) text)),
                            pyLibs = int (length (FindAllString (pyLibRegex s) text)),
                            pyBins = int (length (FindAllString (pyBinRegex s) text)),
                            rustTests = int (length (FindAllString (rustTestRegex s) text)),
                            rustLibs = int (length (FindAllString (rustLibRegex s) text)),
                            rustBins = int (length (FindAllString (rustBinRegex s) text))\<rparr>)))"

section \<open>The file tree\<close>

text \<open>
  What \<^verbatim>\<open>filepath.Walk\<close> can find at a path: a regular file (anything that is not a
  directory) with what opening and reading it yields, a directory with its entries in
  the order in which the walk takes them (by name), a directory whose entries cannot be
  read, or an entry that \<^verbatim>\<open>Lstat\<close> fails on.
\<close>

datatype fsnode =
    File "string option"
  | Dir "(string \<times> fsnode) list"
  | DirUnreadable
  | NoStat

text \<open>
  \<^verbatim>\<open>filepath.Base\<close> and \<^verbatim>\<open>filepath.Dir\<close>, used on the repository path only; and
  \<^verbatim>\<open>filepath.Join\<close> of a clean directory path and an entry name.
\<close>

definition filepathBase :: "string \<Rightarrow> string" where
  "filepathBase p =
     (if p = [] then ''.''
      else (let q = dropWhile (\<lambda>c. c = sep) (rev p)
            in if q = [] then [sep] else rev (takeWhile (\<lambda>c. c \<noteq> sep) q)))"

definition filepathDir :: "string \<Rightarrow> string" where
  "filepathDir p = filepathClean (rev (dropWhile (\<lambda>c. c \<noteq> sep) (rev p)))"

definition filepathJoin :: "string \<Rightarrow> string \<Rightarrow> string" where
  "filepathJoin dir name = (if dir = [sep] then dir @ name else dir @ sep # name)"

text \<open>
  The path of a directory relative to the repository is kept as the list of its
  elements; \<^verbatim>\<open>filepath.Rel\<close> is their concatenation, \<open>.\<close> for the repository itself.
\<close>

definition relPathOf :: "string list \<Rightarrow> string" where
  "relPathOf elems = (if elems = [] then ''.'' else joinSep elems)"

section \<open>The repository walk\<close>

record dirPackages =
  path :: string
  relPath :: string
  hasBuild :: bool
  targets :: "buildTargets option"
  goPkg :: "Package option"
  pythonPkg :: "Package option"
  rustPkg :: "Package option"

text \<open>
  The state of the walk: the map \<^verbatim>\<open>dirMap\<close>, an association list in the order of
  insertion, and the result under construction. A package that a directory entry
  points to is kept in the entry.
\<close>

record walkState =
  dirMap :: "(string \<times> dirPackages) list"
  result :: ScanResult

definition newPackage :: "string \<Rightarrow> string \<Rightarrow> Language \<Rightarrow> Package" where
  "newPackage dir relDir lang =
     \<lparr>Path = dir, RelPath = relDir, Language = lang, HasBuildFile = False,
      HasTestFiles = False, SourceFileCount = 0, TestFileCount = 0, TestTargetCount = 0,
      LibraryTargets = 0, BinaryTargets = 0\<rparr>"

text \<open>The four checks that the callback makes on the name of a file, in its order.\<close>

definition checkBuild ::
  "Scanner \<Rightarrow> string \<Rightarrow> string option \<Rightarrow> dirPackages \<times> ScanResult \<Rightarrow> dirPackages \<times> ScanResult" where
  "checkBuild s filename content = (\<lambda>(dp, res).
     if filename = ''BUILD'' \<or> filename = ''BUILD.bazel''
     then (case parseBuildFile s content of
             Inr t \<Rightarrow> (dp\<lparr>hasBuild := True, targets := Some t\<rparr>,
                       res\<lparr>TotalBUILDs := TotalBUILDs res + 1\<rparr>)
           | Inl e \<Rightarrow> (dp\<lparr>hasBuild := True\<rparr>, res\<lparr>TotalBUILDs := TotalBUILDs res + 1\<rparr>))
     else (dp, res))"

definition checkGo ::
  "string \<Rightarrow> string \<Rightarrow> string \<Rightarrow> dirPackages \<times> ScanResult \<Rightarrow> dirPackages \<times> ScanResult" where
  "checkGo dir relDir filename = (\<lambda>(dp, res).
     if hasSuffix filename ''.go''
     then (let pkg = (case goPkg dp of None \<Rightarrow> newPackage dir relDir LangGo | Some pkg \<Rightarrow> pkg)
           in if hasSuffix filename ''_test.go''
              then (dp\<lparr>goPkg := Some (pkg\<lparr>HasTestFiles := True,
                                             TestFileCount := TestFileCount pkg + 1\<rparr>)\<rparr>,
                    res\<lparr>TotalGoTests := TotalGoTests res + 1\<rparr>)
              else (dp\<lparr>goPkg := Some (pkg\<lparr>SourceFileCount := SourceFileCount pkg + 1\<rparr>)\<rparr>,
                    res\<lparr>TotalGoFiles := TotalGoFiles res + 1\<rparr>))
     else (dp, res))"

definition checkPython ::
  "string \<Rightarrow> string \<Rightarrow> string \<Rightarrow> dirPackages \<times> ScanResult \<Rightarrow> dirPackages \<times> ScanResult" where
  "checkPython dir relDir filename = (\<lambda>(dp, res).
     if hasSuffix filename ''.py''
     then (let pkg = (case pythonPkg dp of None \<Rightarrow> newPackage dir relDir LangPython
                                         | Some pkg \<Rightarrow> pkg)
           in if hasSuffix filename ''_test.py'' \<or> hasPrefix filename ''test_''
                 \<or> hasSuffix filename ''_tests.py''
              then (dp\<lparr>pythonPkg := Some (pkg\<lparr>HasTestFiles := True,
                                                 TestFileCount := TestFileCount pkg + 1\<rparr>)\<rparr>,
                    res\<lparr>TotalPythonTests := TotalPythonTests res + 1\<rparr>)
              else (dp\<lparr>pythonPkg := Some (pkg\<lparr>SourceFileCount := SourceFileCount pkg + 1\<rparr>)\<rparr>,
                    res\<lparr>TotalPythonFiles := TotalPythonFiles res + 1\<rparr>))
     else (dp, res))"

definition checkRust ::
  "string \<Rightarrow> string \<Rightarrow> string \<Rightarrow> dirPackages \<times> ScanResult \<Rightarrow> dirPackages \<times> ScanResult" where
  "checkRust dir relDir filename = (\<lambda>(dp, res).
     if hasSuffix filename ''.rs''
     then (let pkg = (case rustPkg dp of None \<Rightarrow> newPackage dir relDir LangRust
                                       | Some pkg \<Rightarrow> pkg)
           in (dp\<lparr>rustPkg := Some (pkg\<lparr>SourceFileCount := SourceFileCount pkg + 1\<rparr>)\<rparr>,
               res\<lparr>TotalRustFiles := TotalRustFiles res + 1\<rparr>))
     else (dp, res))"

text \<open>
  The callback on a file \<open>filename\<close> of the directory \<open>dir\<close>, whose path relative to the
  repository has the elements \<open>rel\<close>: get or create the entry of the directory, then
  the four checks. For an entry \<open>filename\<close> of \<open>dir\<close> the callback's
  \<^verbatim>\<open>filepath.Dir(path)\<close> and \<^verbatim>\<open>filepath.Base(path)\<close> are \<open>dir\<close> and \<open>filename\<close>.
\<close>

definition visitFile ::
  "Scanner \<Rightarrow> string \<Rightarrow> string list \<Rightarrow> string \<Rightarrow> string option \<Rightarrow> walkState \<Rightarrow> walkState" where
  "visitFile s dir rel filename content st =
     (let relDir = relPathOf rel;
          dp = (case map_of (dirMap st) dir of
                  Some dp \<Rightarrow> dp
                | None \<Rightarrow> \<lparr>path = dir, relPath = relDir, hasBuild = False, targets = None,
                           goPkg = None, pythonPkg = None, rustPkg = None\<rparr>);
          (dp, res) = checkRust dir relDir filename
                        (checkPython dir relDir filename
                          (checkGo dir relDir filename
                            (checkBuild s filename content (dp, result st))))
      in \<lparr>dirMap = AList.update dir dp (dirMap st), result = res\<rparr>)"

text \<open>
  The callback returns \<^verbatim>\<open>nil\<close> or \<^verbatim>\<open>filepath.SkipDir\<close> and nothing else, so the walk
  never fails and \<^verbatim>\<open>Scan\<close> never takes its error branch.
\<close>

datatype walkAction = Continue | SkipDir

definition skipped :: "Scanner \<Rightarrow> string \<Rightarrow> bool" where
  "skipped s base = (hasPrefix base ''.'' \<or> base \<in> set (skipDirs s) \<or> hasPrefix base ''bazel-'')"

definition walkFn ::
  "Scanner \<Rightarrow> string \<Rightarrow> string list \<Rightarrow> string \<Rightarrow> fsnode \<Rightarrow> walkState \<Rightarrow> walkAction \<times> walkState" where
  "walkFn s dir rel base node st =
     (case node of
        NoStat \<Rightarrow> (Continue, st)
      | DirUnreadable \<Rightarrow> (Continue, st)
      | Dir entries \<Rightarrow> (if skipped s base then (SkipDir, st) else (Continue, st))
      | File content \<Rightarrow> (Continue, visitFile s dir rel base content st))"

text \<open>
  \<^verbatim>\<open>filepath.Walk\<close> below the root: the callback on the node, then, for a directory that
  could be read and was not skipped, its entries in order.
\<close>

fun walk :: "Scanner \<Rightarrow> string \<Rightarrow> string list \<Rightarrow> string \<Rightarrow> fsnode \<Rightarrow> walkState \<Rightarrow> walkState"
  and walkEntries ::
    "Scanner \<Rightarrow> string \<Rightarrow> string list \<Rightarrow> (string \<times> fsnode) list \<Rightarrow> walkState \<Rightarrow> walkState" where
  "walk s dir rel base node st =
     (case walkFn s dir rel base node st of
        (SkipDir, st') \<Rightarrow> st'
      | (Continue, st') \<Rightarrow>
          (case node of
             Dir entries \<Rightarrow> walkEntries s (filepathJoin dir base) (rel @ [base]) entries st'
           | _ \<Rightarrow> st'))"
| "walkEntries s dir rel [] st = st"
| "walkEntries s dir rel ((name, node) # entries) st =
     walkEntries s dir rel entries (walk s dir rel name node st)"

text \<open>
  The walk from the root \<^verbatim>\<open>s.repoPath\<close>: the callback sees the root under the base name
  of the repository path; the entries of the root lie in the directory \<^verbatim>\<open>s.repoPath\<close>,
  whose relative path is \<open>.\<close>.
\<close>

definition emptyResult :: "string \<Rightarrow> ScanResult" where
  "emptyResult rp =
     \<lparr>RepoPath = rp, GoPackages = [], PythonPackages = [], RustPackages = [],
      TotalBUILDs = 0, TotalGoFiles = 0, TotalGoTests = 0, TotalGoTestRules = 0,
      TotalPythonFiles = 0, TotalPythonTests = 0, TotalPyTestRules = 0,
      TotalRustFiles = 0, TotalRustTests = 0, TotalRustTestRules = 0\<rparr>"

definition walkRepo :: "Scanner \<Rightarrow> fsnode \<Rightarrow> walkState" where
  "walkRepo s tree =
     (let st = \<lparr>dirMap = [], result = emptyResult (repoPath s)\<rparr>
      in case walkFn s (filepathDir (repoPath s)) [''..''] (filepathBase (repoPath s)) tree st of
           (SkipDir, st') \<Rightarrow> st'
         | (Continue, st') \<Rightarrow>
             (case tree of
                Dir entries \<Rightarrow> walkEntries s (repoPath s) [] entries st'
              | _ \<Rightarrow> st'))"

section \<open>Packages from the directory entries\<close>

text \<open>The body of the loop over \<^verbatim>\<open>dirMap\<close>, one language after the other.\<close>

definition assignGo :: "dirPackages \<Rightarrow> ScanResult \<Rightarrow> ScanResult" where
  "assignGo dp res =
     (case goPkg dp of
        None \<Rightarrow> res
      | Some pkg \<Rightarrow>
          (let pkg = pkg\<lparr>HasBuildFile := hasBuild dp\<rparr>
           in case targets dp of
                None \<Rightarrow> res\<lparr>GoPackages := GoPackages res @ [pkg]\<rparr>
              | Some t \<Rightarrow>
                  res\<lparr>TotalGoTestRules := TotalGoTestRules res + goTests t,
                      GoPackages := GoPackages res @
                        [pkg\<lparr>TestTargetCount := goTests t, LibraryTargets := goLibs t,
                             BinaryTargets := goBins t\<rparr>]\<rparr>))"

definition assignPython :: "dirPackages \<Rightarrow> ScanResult \<Rightarrow> ScanResult" where
  "assignPython dp res =
     (case pythonPkg dp of
        None \<Rightarrow> res
      | Some pkg \<Rightarrow>
          (let pkg = pkg\<lparr>HasBuildFile := hasBuild dp\<rparr>
           in case targets dp of
                None \<Rightarrow> res\<lparr>PythonPackages := PythonPackages res @ [pkg]\<rparr>
              | Some t \<Rightarrow>
                  res\<lparr>TotalPyTestRules := TotalPyTestRules res + pyTests t,
                      PythonPackages := PythonPackages res @
                        [pkg\<lparr>TestTargetCount := pyTests t, LibraryTargets := pyLibs t,
                             BinaryTargets := pyBins t\<rparr>]\<rparr>))"

definition assignRust :: "dirPackages \<Rightarrow> ScanResult \<Rightarrow> ScanResult" where
  "assignRust dp res =
     (case rustPkg dp of
        None \<Rightarrow> res
      | Some pkg \<Rightarrow>
          (let pkg = pkg\<lparr>HasBuildFile := hasBuild dp\<rparr>
           in case targets dp of
                None \<Rightarrow> res\<lparr>RustPackages := RustPackages res @ [pkg]\<rparr>
              | Some t \<Rightarrow>
                  (let pkg = pkg\<lparr>TestTargetCount := rustTests t, LibraryTargets := rustLibs t,
                                 BinaryTargets := rustBins t\<rparr>;
                       res = res\<lparr>TotalRustTestRules := TotalRustTestRules res + rustTests t\<rparr>
                   in if rustTests t > 0
                      then res\<lparr>TotalRustTests := TotalRustTests res + rustTests t,
                               RustPackages := RustPackages res @
                                 [pkg\<lparr>HasTestFiles := True, TestFileCount := rustTests t\<rparr>]\<rparr>
                      else res\<lparr>RustPackages := RustPackages res @ [pkg]\<rparr>)))"

definition assignTargets :: "dirPackages \<Rightarrow> ScanResult \<Rightarrow> ScanResult" where
  "assignTargets dp res = assignRust dp (assignPython dp (assignGo dp res))"

text \<open>Go compares strings byte by byte.\<close>

fun stringLess :: "string \<Rightarrow> string \<Rightarrow> bool" where
  "stringLess [] [] = False"
| "stringLess [] (y # ys) = True"
| "stringLess (x # xs) [] = False"
| "stringLess (x # xs) (y # ys) =
     ((of_char x :: nat) < of_char y \<or> (x = y \<and> stringLess xs ys))"

definition lessRelPath :: "Package \<Rightarrow> Package \<Rightarrow> bool" where
  "lessRelPath a b = stringLess (RelPath a) (RelPath b)"

definition sortPackages :: "ScanResult \<Rightarrow> ScanResult" where
  "sortPackages res =
     res\<lparr>GoPackages := sortSlice lessRelPath (GoPackages res),
         PythonPackages := sortSlice lessRelPath (PythonPackages res),
         RustPackages := sortSlice lessRelPath (RustPackages res)\<rparr>"

text \<open>
  \<^verbatim>\<open>Scan\<close>: the walk, the loop over \<^verbatim>\<open>dirMap\<close> in one of the orders \<^verbatim>\<open>range\<close> may take,
  and the three sorts.
\<close>

inductive Scan :: "Scanner \<Rightarrow> fsnode \<Rightarrow> ScanResult \<Rightarrow> bool" where
  scan:
    "rangeOrder (dirMap (walkRepo s tree)) dps \<Longrightarrow>
     Scan s tree (sortPackages (fold assignTargets dps (result (walkRepo s tree))))"

section \<open>The report\<close>

record Summary =
  sum_BazelizationPct :: float64
  sum_TestCoveragePct :: float64
  sum_BazelizedTestsPct :: float64
  sum_TotalPackages :: int
  TotalBuildFiles :: int
  sum_TotalTestFiles :: int
  sum_TotalGoFiles :: int
  sum_PackagesWithBuild :: int
  sum_PackagesWithTests :: int
  TotalGoTestTargets :: int

record PackageInfo =
  pi_Path :: string
  pi_Language :: string
  pi_HasBuildFile :: bool
  pi_HasTestFiles :: bool
  pi_TestFileCount :: int
  pi_TestTargetCount :: int
  pi_SourceFileCount :: int

record PackageBenchmark =
  pb_Path :: string
  GoTestMs :: int
  BazelTestColdMs :: int
  BazelTestWarmMs :: int

record SpeedReport =
  sr_Packages :: "PackageBenchmark list"

record Report =
  Timestamp :: string
  rep_RepoPath :: string
  rep_Summary :: Summary
  DirectoryBreakdown :: "DirectoryMetrics list"
  Packages :: "PackageInfo list"
  SpeedComparison :: "SpeedReport option"
  Languages :: "string list"
  LanguageSummaries :: "string \<rightharpoonup> LanguageSummary"
  rep_GoPackages :: "PackageInfo list"
  rep_PythonPackages :: "PackageInfo list"
  rep_RustPackages :: "PackageInfo list"

definition zeroSummary :: Summary where
  "zeroSummary =
     \<lparr>sum_BazelizationPct = Finite 0, sum_TestCoveragePct = Finite 0,
      sum_BazelizedTestsPct = Finite 0, sum_TotalPackages = 0, TotalBuildFiles = 0,
      sum_TotalTestFiles = 0, sum_TotalGoFiles = 0, sum_PackagesWithBuild = 0,
      sum_PackagesWithTests = 0, TotalGoTestTargets = 0\<rparr>"

text \<open>The report as \<^verbatim>\<open>Calculate\<close> first makes it; \<open>now\<close> is the formatted time of the call.\<close>

definition newReport :: "string \<Rightarrow> ScanResult \<Rightarrow> Report" where
  "newReport now sr =
     \<lparr>Timestamp = now, rep_RepoPath = RepoPath sr, rep_Summary = zeroSummary,
      DirectoryBreakdown = [], Packages = [], SpeedComparison = None, Languages = [],
      LanguageSummaries = Map.empty, rep_GoPackages = [], rep_PythonPackages = [],
      rep_RustPackages = []\<rparr>"

definition packageInfo :: "string \<Rightarrow> Package \<Rightarrow> PackageInfo" where
  "packageInfo lang pkg =
     \<lparr>pi_Path = RelPath pkg, pi_Language = lang, pi_HasBuildFile = HasBuildFile pkg,
      pi_HasTestFiles = HasTestFiles pkg, pi_TestFileCount = TestFileCount pkg,
      pi_TestTargetCount = TestTargetCount pkg, pi_SourceFileCount = SourceFileCount pkg\<rparr>"

text \<open>The three blocks of \<^verbatim>\<open>Calculate\<close>, one for each language.\<close>

definition goMetrics :: "ScanResult \<Rightarrow> Report \<Rightarrow> Report" where
  "goMetrics sr report =
     (if length (GoPackages sr) > 0
      then (let goSummary = calculateLanguageSummary ''go'' (GoPackages sr);
                goPackages = map (packageInfo ''go'') (GoPackages sr)
            in report\<lparr>
                 Languages := Languages report @ [''go''],
                 LanguageSummaries := (LanguageSummaries report)(''go'' \<mapsto> goSummary),
                 Packages := Packages report @ goPackages,
                 rep_GoPackages := goPackages,
                 rep_Summary :=
                   \<lparr>sum_BazelizationPct = BazelizationPct goSummary,
                    sum_TestCoveragePct = TestCoveragePct goSummary,
                    sum_BazelizedTestsPct = BazelizedTestsPct goSummary,
                    sum_TotalPackages = TotalPackages goSummary,
                    TotalBuildFiles = TotalBUILDs sr,
                    sum_TotalTestFiles = TotalTestFiles goSummary,
                    sum_TotalGoFiles = TotalSourceFiles goSummary,
                    sum_PackagesWithBuild = PackagesWithBuild goSummary,
                    sum_PackagesWithTests = PackagesWithTests goSummary,
                    TotalGoTestTargets = TotalTestTargets goSummary\<rparr>\<rparr>)
      else report)"

definition pythonMetrics :: "ScanResult \<Rightarrow> Report \<Rightarrow> Report" where
  "pythonMetrics sr report =
     (if length (PythonPackages sr) > 0
      then report\<lparr>
             Languages := Languages report @ [''python''],
             LanguageSummaries := (LanguageSummaries report)
               (''python'' \<mapsto> calculateLanguageSummary ''python'' (PythonPackages sr)),
             rep_PythonPackages := map (packageInfo ''python'') (PythonPackages sr)\<rparr>
      else report)"

definition rustMetrics :: "ScanResult \<Rightarrow> Report \<Rightarrow> Report" where
  "rustMetrics sr report =
     (if length (RustPackages sr) > 0
      then report\<lparr>
             Languages := Languages report @ [''rust''],
             LanguageSummaries := (LanguageSummaries report)
               (''rust'' \<mapsto> calculateLanguageSummary ''rust'' (RustPackages sr)),
             rep_RustPackages := map (packageInfo ''rust'') (RustPackages sr)\<rparr>
      else report)"

inductive Calculate :: "string \<Rightarrow> ScanResult \<Rightarrow> Report \<Rightarrow> bool" where
  calculate:
    "calculateDirectoryBreakdown (GoPackages sr) breakdown \<Longrightarrow>
     Calculate now sr
       ((rustMetrics sr (pythonMetrics sr (goMetrics sr (newReport now sr))))
          \<lparr>DirectoryBreakdown := breakdown\<rparr>)"

section \<open>Notions used in the statements and proofs\<close>

text \<open>
  \<open>counted k ps\<close> is the entry that the grouping loop holds for the directory \<open>k\<close> after
  the packages \<open>ps\<close>, and \<open>grouped ps m\<close> says that the map \<open>m\<close> holds these entries.
  \<open>float64Pct n m\<close> is the percentage as the code computes it, \<^verbatim>\<open>float64(n) / float64(m) * 100\<close>
  under the guard \<open>m > 0\<close> and 0 without it, and \<open>exactPct n m\<close> is the real number
  \<open>100 n / m\<close>. \<open>withinPercent\<close> holds of the finite values between 0 and 100, and
  \<open>withinRounding x y\<close> of the finite values \<open>x\<close> that differ from \<open>y\<close> by at most
  \<open>y / 2^51\<close>. The \<open>ex_\<close> constants are example inputs.
\<close>

definition counted :: "string \<Rightarrow> Package list \<Rightarrow> DirectoryMetrics" where
  "counted k ps =
     \<lparr>Name = k,
      dm_TotalPackages = int (length (filter (\<lambda>p. topDirOf p = k) ps)),
      BazelizedPackages = int (length (filter (\<lambda>p. topDirOf p = k \<and> HasBuildFile p) ps)),
      dm_PackagesWithTests = int (length (filter (\<lambda>p. topDirOf p = k \<and> HasTestFiles p) ps)),
      dm_BazelizationPct = Finite 0, dm_TestCoveragePct = Finite 0\<rparr>"

definition grouped :: "Package list \<Rightarrow> (string \<times> DirectoryMetrics) list \<Rightarrow> bool" where
  "grouped ps m = (\<forall>k. map_of m k =
      (if filter (\<lambda>p. topDirOf p = k) ps = [] then None else Some (counted k ps)))"

definition float64Pct :: "int \<Rightarrow> int \<Rightarrow> float64" where
  "float64Pct n m = (if m > 0 then fmul (fdiv (fromInt n) (fromInt m)) (Finite 100) else Finite 0)"

definition exactPct :: "int \<Rightarrow> int \<Rightarrow> real" where
  "exactPct n m = 100 * of_int n / of_int m"

definition withinRounding :: "float64 \<Rightarrow> real \<Rightarrow> bool" where
  "withinRounding x y =
     (case x of Finite r \<Rightarrow> \<bar>r - y\<bar> \<le> y / 2 ^ 51 | Infinite s \<Rightarrow> False | NaN \<Rightarrow> False)"

definition withinPercent :: "float64 \<Rightarrow> bool" where
  "withinPercent x = (case x of Finite r \<Rightarrow> 0 \<le> r \<and> r \<le> 100 | Infinite s \<Rightarrow> False | NaN \<Rightarrow> False)"

definition ex_pkg :: "string \<Rightarrow> bool \<Rightarrow> bool \<Rightarrow> int \<Rightarrow> Package" where
  "ex_pkg rel build tests tgts =
     (newPackage (''/repo/'' @ rel) rel LangGo)
       \<lparr>HasBuildFile := build, HasTestFiles := tests, TestTargetCount := tgts\<rparr>"

definition ex_packages :: "Package list" where
  "ex_packages = [ex_pkg ''a/x'' True True 1, ex_pkg ''b'' False False 3, ex_pkg ''a'' False True 0]"

definition ex_seven_of_25 :: "Package list" where
  "ex_seven_of_25 = replicate 7 (ex_pkg ''a'' True True 1) @ replicate 18 (ex_pkg ''b'' False True 0)"

definition ex_breakdown :: "DirectoryMetrics list" where
  "ex_breakdown =
     [\<lparr>Name = ''a'', dm_TotalPackages = 2, BazelizedPackages = 1, dm_PackagesWithTests = 2,
       dm_BazelizationPct = Finite 50, dm_TestCoveragePct = Finite 100\<rparr>,
      \<lparr>Name = ''b'', dm_TotalPackages = 1, BazelizedPackages = 0, dm_PackagesWithTests = 0,
       dm_BazelizationPct = Finite 0, dm_TestCoveragePct = Finite 0\<rparr>]"

definition ex_ties :: "Package list" where
  "ex_ties = [ex_pkg ''a'' False False 0, ex_pkg ''b'' False False 0]"

definition ex_ties_swapped :: "DirectoryMetrics list" where
  "ex_ties_swapped =
     [\<lparr>Name = ''b'', dm_TotalPackages = 1, BazelizedPackages = 0, dm_PackagesWithTests = 0,
       dm_BazelizationPct = Finite 0, dm_TestCoveragePct = Finite 0\<rparr>,
      \<lparr>Name = ''a'', dm_TotalPackages = 1, BazelizedPackages = 0, dm_PackagesWithTests = 0,
       dm_BazelizationPct = Finite 0, dm_TestCoveragePct = Finite 0\<rparr>]"

text \<open>
  The files that the walk meets, in its order: \<open>filesOf\<close> and \<open>filesIn\<close> follow \<open>walk\<close> and
  \<open>walkEntries\<close>, and \<open>repoFiles\<close> follows \<open>walkRepo\<close>. A \<open>visit\<close> is one call of the callback
  on a file: the directory of the file, the elements of its relative path, the name of
  the file and what reading it yields. \<open>dirAfter\<close> is the entry that the callback
  leaves for the directory of the file. The invariants \<open>buildInv\<close>, \<open>pkgInv\<close> and
  \<open>countInv\<close> relate the entry of a directory to the files visited in it. \<open>finalGo\<close>,
  \<open>finalPython\<close> and \<open>finalRust\<close> are the packages that the loop over the map appends.

  \<open>manifestTargets s vs k\<close> is what the callback has kept of the manifests of the
  directory \<open>k\<close> after the files \<open>vs\<close>: the counts of the last file named \<open>BUILD\<close> or
  \<open>BUILD.bazel\<close> of \<open>k\<close> that could be read, if there is one. \<open>filesWhere P vs k\<close> is the
  number of files of \<open>vs\<close> in the directory \<open>k\<close> whose name satisfies \<open>P\<close>; the predicates
  on names are the tests of the callback.
\<close>

record visit =
  vdir :: string
  vrel :: "string list"
  vname :: string
  vcontent :: "string option"

fun filesOf :: "Scanner \<Rightarrow> string \<Rightarrow> string list \<Rightarrow> string \<Rightarrow> fsnode \<Rightarrow> visit list"
  and filesIn :: "Scanner \<Rightarrow> string \<Rightarrow> string list \<Rightarrow> (string \<times> fsnode) list \<Rightarrow> visit list" where
  "filesOf s dir rel base (File content) =
     [\<lparr>vdir = dir, vrel = rel, vname = base, vcontent = content\<rparr>]"
| "filesOf s dir rel base (Dir entries) =
     (if skipped s base then [] else filesIn s (filepathJoin dir base) (rel @ [base]) entries)"
| "filesOf s dir rel base DirUnreadable = []"
| "filesOf s dir rel base NoStat = []"
| "filesIn s dir rel [] = []"
| "filesIn s dir rel ((name, node) # entries) =
     filesOf s dir rel name node @ filesIn s dir rel entries"

definition repoFiles :: "Scanner \<Rightarrow> fsnode \<Rightarrow> visit list" where
  "repoFiles s tree =
     (case tree of
        File content \<Rightarrow> [\<lparr>vdir = filepathDir (repoPath s), vrel = [''..''],
                          vname = filepathBase (repoPath s), vcontent = content\<rparr>]
      | Dir entries \<Rightarrow>
          if skipped s (filepathBase (repoPath s)) then []
          else filesIn s (repoPath s) [] entries
      | DirUnreadable \<Rightarrow> []
      | NoStat \<Rightarrow> [])"

definition visitV :: "Scanner \<Rightarrow> visit \<Rightarrow> walkState \<Rightarrow> walkState" where
  "visitV s v st = visitFile s (vdir v) (vrel v) (vname v) (vcontent v) st"

definition isManifest :: "string \<Rightarrow> bool" where
  "isManifest name = (name = ''BUILD'' \<or> name = ''BUILD.bazel'')"

definition dirAfter :: "Scanner \<Rightarrow> visit \<Rightarrow> dirPackages option \<Rightarrow> dirPackages" where
  "dirAfter s v old =
     fst (checkRust (vdir v) (relPathOf (vrel v)) (vname v)
           (checkPython (vdir v) (relPathOf (vrel v)) (vname v)
             (checkGo (vdir v) (relPathOf (vrel v)) (vname v)
               (checkBuild s (vname v) (vcontent v)
                 (case old of
                    Some dp \<Rightarrow> dp
                  | None \<Rightarrow> \<lparr>path = vdir v, relPath = relPathOf (vrel v), hasBuild = False,
                              targets = None, goPkg = None, pythonPkg = None, rustPkg = None\<rparr>,
                  emptyResult [])))))"

definition addFile :: "bool \<Rightarrow> Package \<Rightarrow> Package" where
  "addFile test pkg =
     (if test then pkg\<lparr>HasTestFiles := True, TestFileCount := TestFileCount pkg + 1\<rparr>
      else pkg\<lparr>SourceFileCount := SourceFileCount pkg + 1\<rparr>)"

definition isPyTest :: "string \<Rightarrow> bool" where
  "isPyTest f = (hasSuffix f ''_test.py'' \<or> hasPrefix f ''test_'' \<or> hasSuffix f ''_tests.py'')"

definition baseDir :: "visit \<Rightarrow> dirPackages option \<Rightarrow> dirPackages" where
  "baseDir v old =
     (case old of
        Some dp \<Rightarrow> dp
      | None \<Rightarrow> \<lparr>path = vdir v, relPath = relPathOf (vrel v), hasBuild = False,
                  targets = None, goPkg = None, pythonPkg = None, rustPkg = None\<rparr>)"

definition buildInv :: "Scanner \<Rightarrow> visit list \<Rightarrow> string \<Rightarrow> dirPackages \<Rightarrow> bool" where
  "buildInv s vs k dp =
     (path dp = k
      \<and> (hasBuild dp \<longleftrightarrow> (\<exists>v\<in>set vs. vdir v = k \<and> isManifest (vname v)))
      \<and> (\<forall>t. targets dp = Some t \<longrightarrow>
            (\<exists>v\<in>set vs. vdir v = k \<and> isManifest (vname v)
                         \<and> parseBuildFile s (vcontent v) = Inr t)))"

definition freshPkg :: "visit list \<Rightarrow> string \<Rightarrow> Package option \<Rightarrow> bool" where
  "freshPkg vs k po =
     (\<forall>p. po = Some p \<longrightarrow>
        Path p = k \<and> (\<exists>v\<in>set vs. vdir v = k \<and> RelPath p = relPathOf (vrel v))
        \<and> \<not> HasBuildFile p \<and> TestTargetCount p = 0 \<and> LibraryTargets p = 0
        \<and> BinaryTargets p = 0)"

definition pkgInv :: "visit list \<Rightarrow> string \<Rightarrow> dirPackages \<Rightarrow> bool" where
  "pkgInv vs k dp =
     (freshPkg vs k (goPkg dp) \<and> freshPkg vs k (pythonPkg dp) \<and> freshPkg vs k (rustPkg dp)
      \<and> (\<forall>p. rustPkg dp = Some p \<longrightarrow> \<not> HasTestFiles p \<and> TestFileCount p = 0))"

definition isGoSource :: "string \<Rightarrow> bool" where
  "isGoSource f = (hasSuffix f ''.go'' \<and> \<not> hasSuffix f ''_test.go'')"

definition manifestTargets :: "Scanner \<Rightarrow> visit list \<Rightarrow> string \<Rightarrow> buildTargets option" where
  "manifestTargets s vs k =
     fold (\<lambda>v kept. if vdir v = k \<and> isManifest (vname v)
                     then (case parseBuildFile s (vcontent v) of
                             Inr t \<Rightarrow> Some t | Inl e \<Rightarrow> kept)
                     else kept) vs None"

definition filesWhere :: "(string \<Rightarrow> bool) \<Rightarrow> visit list \<Rightarrow> string \<Rightarrow> int" where
  "filesWhere P vs k = int (length (filter (\<lambda>v. vdir v = k \<and> P (vname v)) vs))"

definition isGoTest :: "string \<Rightarrow> bool" where
  "isGoTest f = (hasSuffix f ''.go'' \<and> hasSuffix f ''_test.go'')"

definition isPythonSource :: "string \<Rightarrow> bool" where
  "isPythonSource f = (hasSuffix f ''.py'' \<and> \<not> isPyTest f)"

definition isPythonTest :: "string \<Rightarrow> bool" where
  "isPythonTest f = (hasSuffix f ''.py'' \<and> isPyTest f)"

definition isRustSource :: "string \<Rightarrow> bool" where
  "isRustSource f = hasSuffix f ''.rs''"

definition langInv ::
  "(string \<Rightarrow> bool) \<Rightarrow> (string \<Rightarrow> bool) \<Rightarrow> visit list \<Rightarrow> string \<Rightarrow> Package option \<Rightarrow> bool" where
  "langInv src tst vs k po =
     (case po of
        None \<Rightarrow> filesWhere src vs k = 0 \<and> filesWhere tst vs k = 0
      | Some p \<Rightarrow> SourceFileCount p = filesWhere src vs k
                  \<and> TestFileCount p = filesWhere tst vs k
                  \<and> (HasTestFiles p \<longleftrightarrow> 0 < filesWhere tst vs k)
                  \<and> 0 < filesWhere src vs k + filesWhere tst vs k)"

definition countInv :: "Scanner \<Rightarrow> visit list \<Rightarrow> string \<Rightarrow> dirPackages \<Rightarrow> bool" where
  "countInv s vs k dp =
     (targets dp = manifestTargets s vs k
      \<and> langInv isGoSource isGoTest vs k (goPkg dp)
      \<and> langInv isPythonSource isPythonTest vs k (pythonPkg dp)
      \<and> langInv isRustSource (\<lambda>f. False) vs k (rustPkg dp))"

definition finalGo :: "dirPackages \<Rightarrow> Package \<Rightarrow> Package" where
  "finalGo dp p =
     (case targets dp of
        None \<Rightarrow> p\<lparr>HasBuildFile := hasBuild dp\<rparr>
      | Some t \<Rightarrow> p\<lparr>HasBuildFile := hasBuild dp, TestTargetCount := goTests t,
                     LibraryTargets := goLibs t, BinaryTargets := goBins t\<rparr>)"

definition finalPython :: "dirPackages \<Rightarrow> Package \<Rightarrow> Package" where
  "finalPython dp p =
     (case targets dp of
        None \<Rightarrow> p\<lparr>HasBuildFile := hasBuild dp\<rparr>
      | Some t \<Rightarrow> p\<lparr>HasBuildFile := hasBuild dp, TestTargetCount := pyTests t,
                     LibraryTargets := pyLibs t, BinaryTargets := pyBins t\<rparr>)"

definition finalRust :: "dirPackages \<Rightarrow> Package \<Rightarrow> Package" where
  "finalRust dp p =
     (case targets dp of
        None \<Rightarrow> p\<lparr>HasBuildFile := hasBuild dp\<rparr>
      | Some t \<Rightarrow>
          if rustTests t > 0
          then p\<lparr>HasBuildFile := hasBuild dp, TestTargetCount := rustTests t,
                 LibraryTargets := rustLibs t, BinaryTargets := rustBins t,
                 HasTestFiles := True, TestFileCount := rustTests t\<rparr>
          else p\<lparr>HasBuildFile := hasBuild dp, TestTargetCount := rustTests t,
                 LibraryTargets := rustLibs t, BinaryTargets := rustBins t\<rparr>)"

definition goOf :: "dirPackages \<Rightarrow> Package list" where
  "goOf dp = (case goPkg dp of None \<Rightarrow> [] | Some p \<Rightarrow> [finalGo dp p])"

definition pythonOf :: "dirPackages \<Rightarrow> Package list" where
  "pythonOf dp = (case pythonPkg dp of None \<Rightarrow> [] | Some p \<Rightarrow> [finalPython dp p])"

definition rustOf :: "dirPackages \<Rightarrow> Package list" where
  "rustOf dp = (case rustPkg dp of None \<Rightarrow> [] | Some p \<Rightarrow> [finalRust dp p])"

definition rustTestsOf :: "dirPackages \<Rightarrow> int" where
  "rustTestsOf dp =
     (case rustPkg dp of
        None \<Rightarrow> 0
      | Some p \<Rightarrow> (case targets dp of
                     None \<Rightarrow> 0
                   | Some t \<Rightarrow> if rustTests t > 0 then rustTests t else 0))"

definition scanInOrder :: "Scanner \<Rightarrow> fsnode \<Rightarrow> ScanResult" where
  "scanInOrder s tree =
     sortPackages (fold assignTargets (map snd (dirMap (walkRepo s tree)))
                     (result (walkRepo s tree)))"

definition allPackages :: "ScanResult \<Rightarrow> Package set" where
  "allPackages res = set (GoPackages res) \<union> set (PythonPackages res) \<union> set (RustPackages res)"

text \<open>
  \<open>validEntries\<close> holds of directory entries whose names, at every depth, contain no
  path separator, as the names of a file system do. \<open>noTargets\<close> is the manifest record
  with all counts 0, and \<open>reportInOrder\<close> the report with the breakdown taken in the
  order of insertion. The trees below are example repositories at \<open>/repo\<close>.
\<close>

definition validName :: "string \<Rightarrow> bool" where
  "validName name = (sep \<notin> set name)"

fun validNode :: "fsnode \<Rightarrow> bool"
  and validEntries :: "(string \<times> fsnode) list \<Rightarrow> bool" where
  "validNode (Dir entries) = validEntries entries"
| "validNode (File content) = True"
| "validNode DirUnreadable = True"
| "validNode NoStat = True"
| "validEntries [] = True"
| "validEntries ((name, node) # entries) =
     (validName name \<and> validNode node \<and> validEntries entries)"

definition ex_scanner :: Scanner where
  "ex_scanner = NewScanner ''/repo''"

definition ex_manifest :: string where
  "ex_manifest = ''load('' @ [CHR 0x22] @ ''@rules'' @ [CHR 0x22] @ '')'' @ [newline]
                 @ ''go_test('' @ [newline] @ ''  go_test('' @ [newline]"

definition ex_comment :: string where
  "ex_comment = ''# go_test(''"

definition ex_unparsed_tree :: fsnode where
  "ex_unparsed_tree = Dir [(''svc'', Dir [(''BUILD'', File None), (''main.go'', File (Some ''package main''))])]"

definition ex_two_manifests :: fsnode where
  "ex_two_manifests =
     Dir [(''BUILD'', File (Some ''go_library('')), (''BUILD.bazel'', File (Some ''go_library('')),
          (''main.go'', File None)]"

definition ex_python_only :: fsnode where
  "ex_python_only =
     Dir [(''BUILD'', File (Some ''py_library('')), (''BUILD.bazel'', File (Some ''py_library('')),
          (''app.py'', File None)]"

definition ex_rust_tree :: fsnode where
  "ex_rust_tree =
     Dir [(''crate'', Dir [(''BUILD.bazel'', File (Some ''rust_test('')), (''lib.rs'', File None)]),
          (''plain'', Dir [(''lib.rs'', File None)])]"

definition ex_dot_file_tree :: fsnode where
  "ex_dot_file_tree =
     Dir [(''lib'', Dir [(''.cfg'', Dir [(''gen.go'', File None)]), (''.helper.go'', File None),
                        (''.setup.py'', File None), (''.util.rs'', File None)])]"

definition ex_excluded_entries :: "(string \<times> fsnode) list" where
  "ex_excluded_entries =
     [(''.git'', Dir [(''hook.py'', File None)]),
      (''bazel-foo'', Dir [(''gen.go'', File None)]),
      (''src'', Dir [(''vendor'', Dir [(''dep.go'', File None)]), (''a.go'', File None)])]"

definition noTargets :: buildTargets where
  "noTargets =
     \<lparr>goTests = 0, goLibs = 0, goBins = 0, pyTests = 0, pyLibs = 0, pyBins = 0,
      rustTests = 0, rustLibs = 0, rustBins = 0\<rparr>"

definition reportInOrder :: "string \<Rightarrow> ScanResult \<Rightarrow> Report" where
  "reportInOrder now sr =
     (rustMetrics sr (pythonMetrics sr (goMetrics sr (newReport now sr))))
       \<lparr>DirectoryBreakdown :=
          sortSlice morePackages
            (map dirPercentages (map snd (fold groupPackage (GoPackages sr) [])))\<rparr>"

section \<open>Properties of the float64 operations\<close>

text \<open>
  Rounding to the nearest integer is monotone, leaves an integer as it is and moves a
  number by at most one half.
\<close>

lemma roundEven_of_int: "roundEven (of_int k) = k"
  by (simp add: roundEven_def)

lemma roundEven_bounds: "\<lfloor>x\<rfloor> \<le> roundEven x \<and> roundEven x \<le> \<lfloor>x\<rfloor> + 1"
  by (simp add: roundEven_def Let_def)

lemma roundEven_mono:
  assumes "x \<le> y"
  shows "roundEven x \<le> roundEven y"
proof (cases "\<lfloor>x\<rfloor> = \<lfloor>y\<rfloor>")
  case True
  with assms show ?thesis
    by (auto simp: roundEven_def Let_def)
next
  case False
  with assms have "\<lfloor>x\<rfloor> + 1 \<le> \<lfloor>y\<rfloor>"
    using floor_mono [of x y] by linarith
  with roundEven_bounds [of x] roundEven_bounds [of y] show ?thesis
    by linarith
qed

lemma roundEven_error: "\<bar>of_int (roundEven x) - x\<bar> \<le> 1 / 2"
  unfolding roundEven_def Let_def by (auto; linarith)

text \<open>
  The search for the binary exponent: \<open>binade n\<close> finds the exponent of every \<open>x\<close> from
  \<open>2^(-n)\<close> up to \<open>2^(n+1)\<close>, and stays at or below \<open>-j\<close> on an \<open>x\<close> below \<open>2^(-j)\<close>.
\<close>

lemma binade_bounds:
  "2 powi (- int n) \<le> x \<Longrightarrow> x < 2 powi (int n + 1)
   \<Longrightarrow> 2 powi (binade n x) \<le> x \<and> x < 2 powi (binade n x + 1)"
proof (induction n arbitrary: x)
  case 0
  then show ?case by simp
next
  case (Suc n)
  have pos: "(0::real) < 2 powi (- int n)"
    by simp
  have down: "(2::real) powi (- int (Suc n)) * 2 = 2 powi (- int n)"
    using power_int_add [of "2::real" "- int (Suc n)" 1] by simp
  have up: "(2::real) powi (int (Suc n) + 1) = 2 powi (int n + 1) * 2"
    using power_int_add [of "2::real" "int n + 1" 1] by (simp add: algebra_simps)
  have ge1: "(2::real) \<le> 2 powi (int n + 1)" and le1: "(2::real) powi (- int n) \<le> 1"
    using power_int_increasing [of 1 "int n + 1" "2::real"]
      power_int_increasing [of "- int n" 0 "2::real"] by simp_all
  show ?case
  proof (cases "x < 1")
    case True
    have "2 powi (- int n) \<le> 2 * x" "2 * x < 2 powi (int n + 1)"
      using Suc.prems True down ge1 by linarith+
    from Suc.IH [OF this] have "2 powi (binade n (2 * x)) \<le> 2 * x"
      "2 * x < 2 powi (binade n (2 * x) + 1)"
      by simp_all
    moreover have "(2::real) powi (binade n (2 * x)) = 2 powi (binade n (2 * x) - 1) * 2"
      using power_int_add [of "2::real" "binade n (2 * x) - 1" 1] by simp
    moreover have "(2::real) powi (binade n (2 * x) + 1) = 2 powi (binade n (2 * x)) * 2"
      using power_int_add [of "2::real" "binade n (2 * x)" 1] by simp
    ultimately show ?thesis
      using True by simp
  next
    case False
    show ?thesis
    proof (cases "2 \<le> x")
      case True
      have "2 powi (- int n) \<le> x / 2" "x / 2 < 2 powi (int n + 1)"
        using Suc.prems True up le1 by linarith+
      from Suc.IH [OF this] have "2 powi (binade n (x / 2)) \<le> x / 2"
        "x / 2 < 2 powi (binade n (x / 2) + 1)"
        by simp_all
      moreover have "(2::real) powi (binade n (x / 2) + 1) = 2 powi (binade n (x / 2)) * 2"
        using power_int_add [of "2::real" "binade n (x / 2)" 1] by simp
      moreover have "(2::real) powi (binade n (x / 2) + 1 + 1) = 2 powi (binade n (x / 2) + 1) * 2"
        using power_int_add [of "2::real" "binade n (x / 2) + 1" 1] by simp
      ultimately show ?thesis
        using True \<open>\<not> x < 1\<close> by simp
    next
      case False
      with \<open>\<not> x < 1\<close> show ?thesis
        by simp
    qed
  qed
qed

lemma binade_le0: "x < 2 \<Longrightarrow> binade n x \<le> 0"
proof (induction n arbitrary: x)
  case 0
  then show ?case by simp
next
  case (Suc n)
  show ?case
  proof (cases "x < 1")
    case True
    with Suc.IH [of "2 * x"] show ?thesis by simp
  next
    case False
    with Suc.prems show ?thesis by simp
  qed
qed

lemma binade_small: "x < 2 powi (- int j) \<Longrightarrow> j \<le> n \<Longrightarrow> binade n x \<le> - int j"
proof (induction n arbitrary: x j)
  case 0
  then show ?case by simp
next
  case (Suc n)
  show ?case
  proof (cases j)
    case 0
    with Suc.prems binade_le0 [of x "Suc n"] show ?thesis by simp
  next
    case (Suc i)
    have "(2::real) powi (- int j) * 2 = 2 powi (- int i)"
      using power_int_add [of "2::real" "- int j" 1] Suc by simp
    moreover have "(2::real) powi (- int i) \<le> 1"
      using power_int_increasing [of "- int i" 0 "2::real"] by simp
    ultimately have "2 * x < 2 powi (- int i)" "x < 1"
      using Suc.prems(1) by linarith+
    with Suc.IH [of "2 * x" i] Suc.prems(2) Suc show ?thesis
      by simp
  qed
qed


lemma p2_less: "(2::real) powi a < 2 powi b \<Longrightarrow> a < b"
  using power_int_increasing [of b a "2::real"] by (cases "a < b") simp_all

lemma p2_le: "(2::real) powi a \<le> 2 powi b \<Longrightarrow> a \<le> b"
  using power_int_strict_increasing [of b a "2::real"] by (cases "a \<le> b") simp_all

lemma p2_multiple: "j \<le> k \<Longrightarrow> (2::real) powi k = of_int (2 ^ nat (k - j)) * 2 powi j"
  using power_int_add [of "2::real" "k - j" j] by (simp add: power_int_def)

lemma p2_range: "(2::real) powi (- 2200) \<le> 2 powi (- 1022)" "(2::real) ^ 64 < 2 powi 2201"
proof -
  show "(2::real) powi (- 2200) \<le> 2 powi (- 1022)"
    by (rule power_int_increasing) simp_all
  have "(2::real) powi 64 < 2 powi 2201"
    by (rule power_int_strict_increasing) simp_all
  then show "(2::real) ^ 64 < 2 powi 2201"
    by (simp only: power_int_numeral)
qed

lemma exponent_small:
  assumes "x < 2 powi (- 1022)"
  shows "exponent x = - 1022"
proof -
  have "x < 2 powi (- int 1022)"
    using assms by simp
  from binade_small [OF this, of 2200] show ?thesis
    by (simp add: exponent_def)
qed

lemma exponent_normal:
  assumes "2 powi (- 1022) \<le> x" "x \<le> 2 ^ 64"
  shows "2 powi (exponent x) \<le> x" "x < 2 powi (exponent x + 1)" "- 1022 \<le> exponent x"
proof -
  have lo: "2 powi (- int 2200) \<le> x"
    using assms(1) p2_range(1) by simp
  have hi: "x < 2 powi (int 2200 + 1)"
    using assms(2) p2_range(2) by simp
  from binade_bounds [OF lo hi]
  have b: "2 powi (binade 2200 x) \<le> x" "x < 2 powi (binade 2200 x + 1)"
    by simp_all
  from assms(1) b(2) have "(2::real) powi (- 1022) < 2 powi (binade 2200 x + 1)"
    by (rule le_less_trans)
  then have "- 1022 < binade 2200 x + 1"
    by (rule p2_less)
  then have e: "exponent x = binade 2200 x"
    by (simp add: exponent_def)
  show "2 powi (exponent x) \<le> x" "x < 2 powi (exponent x + 1)" "- 1022 \<le> exponent x"
    using b \<open>- 1022 < binade 2200 x + 1\<close> by (simp_all add: e)
qed

lemma exponent_ge: "x \<le> 2 ^ 64 \<Longrightarrow> - 1022 \<le> exponent x"
  by (simp add: exponent_def)

lemma exponent_upper:
  assumes "x \<le> 2 ^ 64"
  shows "x < 2 powi (exponent x + 1)"
proof (cases "x < 2 powi (- 1022)")
  case True
  have "(2::real) powi (- 1022) \<le> 2 powi (- 1022 + 1)"
    by (rule power_int_increasing) simp_all
  with True show ?thesis
    by (simp add: exponent_small)
next
  case False
  with assms exponent_normal(2) [of x] show ?thesis
    by simp
qed

lemma exponent_eq:
  assumes "2 powi k \<le> x" "x < 2 powi (k + 1)" "- 1022 \<le> k" "x \<le> 2 ^ 64"
  shows "exponent x = k"
proof -
  have "(2::real) powi (- 1022) \<le> 2 powi k"
    using assms(3) by (intro power_int_increasing) simp_all
  with assms(1) have n: "2 powi (- 1022) \<le> x"
    by linarith
  note e = exponent_normal [OF n assms(4)]
  from e(1) assms(2) have "(2::real) powi (exponent x) < 2 powi (k + 1)"
    by (rule le_less_trans)
  then have "exponent x < k + 1"
    by (rule p2_less)
  moreover from assms(1) e(2) have "(2::real) powi k < 2 powi (exponent x + 1)"
    by (rule le_less_trans)
  then have "k < exponent x + 1"
    by (rule p2_less)
  ultimately show ?thesis
    by simp
qed

lemma exponent_mono:
  assumes "x \<le> y" "y \<le> 2 ^ 64"
  shows "exponent x \<le> exponent y"
proof (cases "x < 2 powi (- 1022)")
  case True
  with exponent_ge [OF assms(2)] show ?thesis
    by (simp add: exponent_small)
next
  case False
  with assms have nx: "2 powi (- 1022) \<le> x" "x \<le> 2 ^ 64" and ny: "2 powi (- 1022) \<le> y"
    by simp_all
  from exponent_normal(1) [OF nx] assms(1) exponent_normal(2) [OF ny assms(2)]
  have "(2::real) powi (exponent x) < 2 powi (exponent y + 1)"
    by linarith
  then have "exponent x < exponent y + 1"
    by (rule p2_less)
  then show ?thesis
    by simp
qed

lemma exponent_le:
  assumes "x \<le> 2 powi k" "- 1022 \<le> k" "x \<le> 2 ^ 64"
  shows "exponent x \<le> k"
proof (cases "x < 2 powi (- 1022)")
  case True
  with assms(2) show ?thesis
    by (simp add: exponent_small)
next
  case False
  with exponent_normal(1) [of x] assms(1,3) have "(2::real) powi (exponent x) \<le> 2 powi k"
    by simp
  then show ?thesis
    by (rule p2_le)
qed

text \<open>
  Rounding to the nearest \<^verbatim>\<open>float64\<close>: a multiple of \<open>ulp x\<close> on one side of \<open>x\<close> stays
  on that side of \<open>nearest x\<close>, so rounding is monotone and leaves the integers up to
  \<open>2^53\<close> as they are; above the smallest normal number it moves \<open>x\<close> by at most
  \<open>x / 2^53\<close>.
\<close>

lemma ulp_pos: "0 < ulp x"
  by (simp add: ulp_def)

lemma nearest_le:
  assumes "x \<le> of_int m * ulp x"
  shows "nearest x \<le> of_int m * ulp x"
proof -
  have "x / ulp x \<le> of_int m"
    using assms ulp_pos [of x] by (simp add: pos_divide_le_eq)
  from roundEven_mono [OF this] have "roundEven (x / ulp x) \<le> m"
    by (simp add: roundEven_of_int)
  then have "(of_int (roundEven (x / ulp x)) :: real) \<le> of_int m"
    by simp
  then show ?thesis
    unfolding nearest_def using ulp_pos [of x] by (simp only: mult_le_cancel_right_pos)
qed

lemma nearest_ge:
  assumes "of_int m * ulp x \<le> x"
  shows "of_int m * ulp x \<le> nearest x"
proof -
  have "of_int m \<le> x / ulp x"
    using assms ulp_pos [of x] by (simp add: pos_le_divide_eq)
  from roundEven_mono [OF this] have "m \<le> roundEven (x / ulp x)"
    by (simp add: roundEven_of_int)
  then have "(of_int m :: real) \<le> of_int (roundEven (x / ulp x))"
    by simp
  then show ?thesis
    unfolding nearest_def using ulp_pos [of x] by (simp only: mult_le_cancel_right_pos)
qed

lemma nearest_exact:
  assumes "x = of_int m * ulp x"
  shows "nearest x = x"
  using nearest_le [of x m] nearest_ge [of m x] assms by simp

lemma nearest_le_p2:
  assumes "x \<le> 2 powi k" "exponent x - 52 \<le> k"
  shows "nearest x \<le> 2 powi k"
proof -
  have "(2::real) powi k = of_int (2 ^ nat (k - (exponent x - 52))) * ulp x"
    unfolding ulp_def using assms(2) by (rule p2_multiple)
  with nearest_le [of x "2 ^ nat (k - (exponent x - 52))"] assms(1) show ?thesis
    by simp
qed

lemma nearest_ge_p2:
  assumes "2 powi k \<le> x" "exponent x - 52 \<le> k"
  shows "2 powi k \<le> nearest x"
proof -
  have "(2::real) powi k = of_int (2 ^ nat (k - (exponent x - 52))) * ulp x"
    unfolding ulp_def using assms(2) by (rule p2_multiple)
  with nearest_ge [of "2 ^ nat (k - (exponent x - 52))" x] assms(1) show ?thesis
    by simp
qed

lemma nearest_mono:
  assumes "x \<le> y" "y \<le> 2 ^ 64"
  shows "nearest x \<le> nearest y"
proof (cases "exponent x = exponent y")
  case True
  then have u: "ulp x = ulp y"
    by (simp add: ulp_def)
  have "x / ulp y \<le> y / ulp y"
    using assms(1) ulp_pos [of y] by (simp add: divide_right_mono)
  from roundEven_mono [OF this]
  have "(of_int (roundEven (x / ulp y)) :: real) \<le> of_int (roundEven (y / ulp y))"
    by simp
  then show ?thesis
    unfolding nearest_def u using ulp_pos [of y] by (simp only: mult_le_cancel_right_pos)
next
  case False
  with exponent_mono [OF assms] have lt: "exponent x < exponent y"
    by simp
  have x64: "x \<le> 2 ^ 64"
    using assms by simp
  have "\<not> y < 2 powi (- 1022)"
    using lt exponent_ge [OF x64] exponent_small [of y] by auto
  then have ny: "2 powi (- 1022) \<le> y"
    by simp
  have "(2::real) powi (exponent x + 1) \<le> 2 powi (exponent y)"
    using lt by (intro power_int_increasing) simp_all
  with exponent_upper [OF x64] have "x \<le> 2 powi (exponent y)"
    by simp
  then have "nearest x \<le> 2 powi (exponent y)"
    using lt by (intro nearest_le_p2) simp_all
  also have "\<dots> \<le> nearest y"
    using exponent_normal(1) [OF ny assms(2)] by (intro nearest_ge_p2) simp_all
  finally show ?thesis .
qed

lemma nearest_0: "nearest 0 = 0"
  by (simp add: nearest_def roundEven_def)

lemma nearest_eval:
  assumes "2 ^ 52 \<le> x * 2 ^ m" "x * 2 ^ m < 2 ^ 53" "m \<le> 1074"
  shows "nearest x = of_int (roundEven (x * 2 ^ m)) / 2 ^ m"
proof -
  have p: "(2::real) powi (52 - int m) * 2 ^ m = 2 ^ 52"
    using power_int_add [of "2::real" "52 - int m" "int m"] by simp
  have p': "(2::real) powi (52 - int m + 1) * 2 ^ m = 2 ^ 53"
    using power_int_add [of "2::real" "52 - int m + 1" "int m"] by simp
  have "2 powi (52 - int m) * 2 ^ m \<le> x * 2 ^ m"
    using assms(1) by (simp only: p)
  then have lo: "2 powi (52 - int m) \<le> x"
    by simp
  have "x * 2 ^ m < 2 powi (52 - int m + 1) * 2 ^ m"
    using assms(2) by (simp only: p')
  then have hi: "x < 2 powi (52 - int m + 1)"
    by simp
  have "(1::real) \<le> 2 ^ m"
    by simp
  then have "x * 1 \<le> x * 2 ^ m"
    using lo by (intro mult_left_mono) (auto intro: order_trans [OF _ lo] less_imp_le)
  with assms(2) have "x \<le> 2 ^ 64"
    using power_increasing [of 53 64 "2::real"] by simp
  from exponent_eq [OF lo hi _ this] assms(3) have "exponent x = 52 - int m"
    by simp
  then have "ulp x = 1 / 2 ^ m"
    by (simp add: ulp_def power_int_minus inverse_eq_divide)
  then show ?thesis
    by (simp add: nearest_def)
qed


lemma nearest_nonneg: "0 \<le> x \<Longrightarrow> 0 \<le> nearest x"
  using nearest_ge [of 0 x] by simp

lemma nearest_int:
  assumes "0 \<le> n" "n \<le> 2 ^ 53"
  shows "nearest (of_int n) = of_int n"
proof (cases "n = 0")
  case True
  then show ?thesis
    by (simp add: nearest_0)
next
  case False
  define x :: real where "x = of_int n"
  have x1: "1 \<le> x" and x53: "x \<le> 2 ^ 53"
    using assms False by (simp_all add: x_def)
  have x64: "x \<le> 2 ^ 64"
    using x53 power_increasing [of 53 64 "2::real"] by simp
  have "x \<le> 2 powi 53"
    using x53 by simp
  then have e53: "exponent x \<le> 53"
    using x64 by (intro exponent_le) simp_all
  show ?thesis
  proof (cases "exponent x \<le> 52")
    case True
    from p2_multiple [of "exponent x - 52" 0] True
    have "(1::real) = of_int (2 ^ nat (52 - exponent x)) * ulp x"
      by (simp add: ulp_def)
    then have "x = of_int (n * 2 ^ nat (52 - exponent x)) * ulp x"
      by (simp add: x_def)
    then show ?thesis
      unfolding x_def [symmetric] by (rule nearest_exact)
  next
    case False
    with e53 have e: "exponent x = 53"
      by simp
    have "(2::real) powi (- 1022) \<le> 2 powi 0"
      by (rule power_int_increasing) simp_all
    with x1 have "2 powi (- 1022) \<le> x"
      by simp
    from exponent_normal(1) [OF this x64] e x53 have "x = 2 ^ 53"
      by simp
    moreover have "(2::real) ^ 53 = of_int (2 ^ 52) * 2 powi 1"
      by simp
    moreover have "ulp x = 2"
      by (simp add: ulp_def e)
    ultimately have "x = of_int (2 ^ 52) * ulp x"
      by (simp only:) simp
    then show ?thesis
      unfolding x_def [symmetric] by (rule nearest_exact)
  qed
qed

lemma round64_nonneg:
  assumes "0 \<le> x" "x \<le> 2 ^ 64"
  shows "round64 x = Finite (nearest x)" "0 \<le> nearest x" "nearest x \<le> 2 ^ 64"
proof -
  have "x \<le> 2 powi 64"
    using assms(2) by simp
  then have "exponent x \<le> 64"
    using assms(2) by (intro exponent_le) simp_all
  with \<open>x \<le> 2 powi 64\<close> have "nearest x \<le> 2 powi 64"
    by (intro nearest_le_p2) simp_all
  then show le: "nearest x \<le> 2 ^ 64"
    by simp
  have "(2::real) ^ 64 < 2 ^ 1024"
    by (rule power_strict_increasing) simp_all
  with le have "\<not> 2 ^ 1024 \<le> nearest x"
    by linarith
  then show "round64 x = Finite (nearest x)"
    using assms(1) by (simp add: round64_def Let_def)
  show "0 \<le> nearest x"
    using assms(1) by (rule nearest_nonneg)
qed

lemma fromInt_nonneg:
  assumes "0 \<le> n" "n < 2 ^ 63"
  shows "fromInt n = Finite (nearest (of_int n))"
proof -
  have "(of_int n :: real) \<le> 2 ^ 63"
    using assms(2) by simp
  also have "\<dots> \<le> 2 ^ 64"
    by (rule power_increasing) simp_all
  finally show ?thesis
    using assms(1) by (simp add: fromInt_def round64_nonneg(1))
qed

lemma fromInt_exact:
  assumes "0 \<le> n" "n \<le> 2 ^ 53"
  shows "fromInt n = Finite (of_int n)"
proof -
  have "n < 2 ^ 63"
    using assms(2) by simp
  with assms show ?thesis
    by (simp add: fromInt_nonneg nearest_int)
qed

text \<open>
  The percentage \<^verbatim>\<open>float64(c) / float64(t) * 100\<close> of a part \<open>c\<close> of a total \<open>t\<close>.
\<close>

lemma percent_within:
  assumes "0 \<le> c" "c \<le> t" "0 < t" "t < 2 ^ 63"
  shows "\<exists>r. fmul (fdiv (fromInt c) (fromInt t)) (Finite 100) = Finite r \<and> 0 \<le> r \<and> r \<le> 100"
proof -
  define a b where "a = nearest (of_int c)" and "b = nearest (of_int t)"
  have t64: "(of_int t :: real) \<le> 2 ^ 64"
  proof -
    have "(of_int t :: real) \<le> 2 ^ 63"
      using assms(4) by simp
    also have "\<dots> \<le> 2 ^ 64"
      by (rule power_increasing) simp_all
    finally show ?thesis .
  qed
  have fa: "fromInt c = Finite a" and fb: "fromInt t = Finite b"
    using assms by (simp_all add: a_def b_def fromInt_nonneg)
  have a0: "0 \<le> a"
    using assms(1) by (simp add: a_def nearest_nonneg)
  have ab: "a \<le> b"
    unfolding a_def b_def using assms(2) t64 by (intro nearest_mono) simp_all
  have "nearest (of_int 1) \<le> b"
    unfolding b_def using assms(3) t64 by (intro nearest_mono) simp_all
  then have b1: "1 \<le> b"
    using nearest_int [of 1] by simp
  define q where "q = nearest (a / b)"
  have q0: "0 \<le> a / b" and q1: "a / b \<le> 1"
    using a0 ab b1 by simp_all
  have q64: "a / b \<le> 2 ^ 64"
    using q1 one_le_power [of "2::real" 64] by linarith
  have fq: "fdiv (Finite a) (Finite b) = Finite q"
    using b1 q0 q64 by (simp add: q_def round64_nonneg(1))
  have qn: "0 \<le> q"
    unfolding q_def using q0 by (rule nearest_nonneg)
  have "q \<le> nearest (of_int 1)"
    unfolding q_def using q1 by (intro nearest_mono) simp_all
  then have qle: "q \<le> 1"
    using nearest_int [of 1] by simp
  have z0: "0 \<le> q * 100" and z1: "q * 100 \<le> 100"
    using qn qle by simp_all
  have z64: "q * 100 \<le> 2 ^ 64"
    using z1 by simp
  have fr: "fmul (Finite q) (Finite 100) = Finite (nearest (q * 100))"
    using z0 z64 by (simp add: round64_nonneg(1))
  have "nearest (q * 100) \<le> nearest (of_int 100)"
    using z1 by (intro nearest_mono) simp_all
  then have "nearest (q * 100) \<le> 100"
    using nearest_int [of 100] by simp
  moreover have "0 \<le> nearest (q * 100)"
    using z0 by (rule nearest_nonneg)
  ultimately show ?thesis
    unfolding fa fb fq fr by simp
qed

lemma nearest_error:
  assumes "2 powi (- 1022) \<le> x" "x \<le> 2 ^ 64"
  shows "\<bar>nearest x - x\<bar> \<le> x / 2 ^ 53"
proof -
  have "nearest x - x = (of_int (roundEven (x / ulp x)) - x / ulp x) * ulp x"
    using ulp_pos [of x] by (simp add: nearest_def algebra_simps)
  then have "\<bar>nearest x - x\<bar> = \<bar>of_int (roundEven (x / ulp x)) - x / ulp x\<bar> * ulp x"
    using ulp_pos [of x] by (simp add: abs_mult)
  also have "\<dots> \<le> 1 / 2 * ulp x"
    using roundEven_error [of "x / ulp x"] ulp_pos [of x] by (intro mult_right_mono) simp_all
  also have "\<dots> = 2 powi (exponent x) / 2 ^ 53"
    using power_int_add [of "2::real" "exponent x" "- 52"]
    by (simp add: ulp_def power_int_minus inverse_eq_divide)
  also have "\<dots> \<le> x / 2 ^ 53"
    using exponent_normal(1) [OF assms] by (simp add: divide_right_mono)
  finally show ?thesis .
qed

lemma round64_eval:
  assumes "2 ^ 52 \<le> x * 2 ^ m" "x * 2 ^ m < 2 ^ 53" "m \<le> 1074"
  shows "round64 x = Finite (of_int (roundEven (x * 2 ^ m)) / 2 ^ m)"
proof -
  have "(0::real) < 2 ^ m"
    by simp
  have "0 < x * 2 ^ m"
    using assms(1) by (rule less_le_trans [rotated]) simp
  then have x0: "0 \<le> x"
    by (simp add: zero_less_mult_iff)
  have "x * 1 \<le> x * 2 ^ m"
    using x0 by (intro mult_left_mono) simp_all
  with assms(2) have "x \<le> 2 ^ 64"
    using power_increasing [of 53 64 "2::real"] by simp
  with x0 show ?thesis
    by (simp add: round64_nonneg(1) nearest_eval [OF assms])
qed

lemma round64_0: "round64 0 = Finite 0"
  by (simp add: round64_nonneg(1) nearest_0)

lemma percent_accuracy:
  assumes "0 \<le> c" "c \<le> t" "0 < t" "t \<le> 2 ^ 53"
  shows "\<exists>r. fmul (fdiv (fromInt c) (fromInt t)) (Finite 100) = Finite r
           \<and> \<bar>r - 100 * of_int c / of_int t\<bar> \<le> 100 * of_int c / of_int t / 2 ^ 51"
proof (cases "c = 0")
  case True
  have "fromInt t = Finite (of_int t)"
    using assms by (simp add: fromInt_exact)
  then show ?thesis
    using assms(3) by (simp add: True fromInt_exact round64_0)
next
  case False
  define p :: real where "p = of_int c / of_int t"
  define q where "q = nearest p"
  define z where "z = q * 100"
  have c1: "(1::real) \<le> of_int c" and tpos: "(0::real) < of_int t"
    and t53: "(of_int t :: real) \<le> 2 ^ 53" and ct: "(of_int c :: real) \<le> of_int t"
    using assms False by simp_all
  have fa: "fromInt c = Finite (of_int c)" and fb: "fromInt t = Finite (of_int t)"
    using assms by (simp_all add: fromInt_exact)
  have p1: "p \<le> 1"
    using ct tpos by (simp add: p_def)
  have "1 / 2 ^ 53 \<le> 1 / (of_int t :: real)"
    using tpos t53 by (intro divide_left_mono) simp_all
  also have "\<dots> \<le> p"
    unfolding p_def using c1 tpos by (intro divide_right_mono) simp_all
  finally have plo: "1 / 2 ^ 53 \<le> p" .
  have small: "(2::real) powi (- 1022) \<le> 1 / 2 ^ 53"
    using power_int_increasing [of "- 1022" "- 53" "2::real"]
    by (simp add: power_int_minus inverse_eq_divide)
  have p0: "0 < p"
    using plo by (rule less_le_trans [rotated]) simp
  have p64: "p \<le> 2 ^ 64"
    using p1 one_le_power [of "2::real" 64] by linarith
  have eq: "\<bar>q - p\<bar> \<le> p / 2 ^ 53"
    unfolding q_def using small plo p64 by (intro nearest_error) linarith+
  have fq: "fdiv (Finite (of_int c)) (Finite (of_int t)) = Finite q"
    using tpos p0 p64 by (simp add: q_def p_def round64_nonneg(1))
  have "p / 2 ^ 53 \<le> p / 2"
    using p0 by (intro divide_left_mono) simp_all
  with eq have qlo: "p / 2 \<le> q" and qhi: "q \<le> 2 * p"
    using p0 by linarith+
  have "q \<le> nearest (of_int 1)"
    unfolding q_def using p1 by (intro nearest_mono) simp_all
  then have q1: "q \<le> 1"
    using nearest_int [of 1] by simp
  have z0: "0 \<le> z" and z64: "z \<le> 2 ^ 64"
    using qlo p0 q1 by (simp_all add: z_def)
  have "1 / 2 ^ 53 \<le> z"
    using plo qlo by (simp add: z_def)
  with small have "2 powi (- 1022) \<le> z"
    by linarith
  then have ez: "\<bar>nearest z - z\<bar> \<le> z / 2 ^ 53"
    using z64 by (rule nearest_error)
  have fr: "fmul (Finite q) (Finite 100) = Finite (nearest z)"
    using z0 z64 by (simp add: z_def [symmetric] round64_nonneg(1))
  have "nearest z - 100 * p = (nearest z - z) + 100 * (q - p)"
    by (simp add: z_def)
  then have "\<bar>nearest z - 100 * p\<bar> \<le> \<bar>nearest z - z\<bar> + \<bar>100 * (q - p)\<bar>"
    by (simp only: abs_triangle_ineq)
  also have "\<dots> = \<bar>nearest z - z\<bar> + 100 * \<bar>q - p\<bar>"
    by (simp only: abs_mult abs_numeral)
  finally have "\<bar>nearest z - 100 * p\<bar> \<le> \<bar>nearest z - z\<bar> + 100 * \<bar>q - p\<bar>" .
  also have "\<dots> \<le> z / 2 ^ 53 + 100 * (p / 2 ^ 53)"
    using ez eq by (intro add_mono mult_left_mono) simp_all
  also have "\<dots> \<le> 200 * p / 2 ^ 53 + 100 * (p / 2 ^ 53)"
    using qhi by (simp add: z_def)
  also have "\<dots> \<le> 100 * p / 2 ^ 51"
    using p0 by simp
  finally have "\<bar>nearest z - 100 * p\<bar> \<le> 100 * p / 2 ^ 51" .
  then show ?thesis
    unfolding fa fb fq fr by (simp add: p_def)
qed

section \<open>Properties of the language summary\<close>

lemma fold_tally_build:
  "PackagesWithBuild (fold tally ps s) = PackagesWithBuild s + int (length (filter HasBuildFile ps))"
  by (induction ps arbitrary: s) (simp_all add: tally_def Let_def)

lemma fold_tally_tests:
  "PackagesWithTests (fold tally ps s) = PackagesWithTests s + int (length (filter HasTestFiles ps))"
  by (induction ps arbitrary: s) (simp_all add: tally_def Let_def)

lemma fold_tally_total:
  "TotalPackages (fold tally ps s) = TotalPackages s"
  by (induction ps arbitrary: s) (simp_all add: tally_def Let_def)

lemma fold_tally_pct:
  "BazelizationPct (fold tally ps s) = BazelizationPct s"
  "TestCoveragePct (fold tally ps s) = TestCoveragePct s"
  "BazelizedTestsPct (fold tally ps s) = BazelizedTestsPct s"
  by (induction ps arbitrary: s) (simp_all add: tally_def Let_def)

lemma fold_countBazelized:
  "fold countBazelized ps n = n + int (length (filter (\<lambda>p. HasTestFiles p \<and> TestTargetCount p > 0) ps))"
  by (induction ps arbitrary: n) (simp_all add: countBazelized_def)

lemmas summary_simps = calculateLanguageSummary_def Let_def fold_tally_build fold_tally_tests
      fold_tally_total fold_tally_pct fold_countBazelized

lemma summary_TotalPackages: "TotalPackages (calculateLanguageSummary lang ps) = int (length ps)"
  by (simp add: summary_simps)

lemma summary_PackagesWithBuild:
  "PackagesWithBuild (calculateLanguageSummary lang ps) = int (length (filter HasBuildFile ps))"
  by (simp add: summary_simps)

lemma summary_PackagesWithTests:
  "PackagesWithTests (calculateLanguageSummary lang ps) = int (length (filter HasTestFiles ps))"
  by (simp add: summary_simps)

lemma summary_BazelizationPct:
  "BazelizationPct (calculateLanguageSummary lang ps) =
     float64Pct (int (length (filter HasBuildFile ps))) (int (length ps))"
  by (simp add: summary_simps float64Pct_def)

lemma summary_TestCoveragePct:
  "TestCoveragePct (calculateLanguageSummary lang ps) =
     float64Pct (int (length (filter HasTestFiles ps))) (int (length ps))"
  by (simp add: summary_simps float64Pct_def)

lemma summary_BazelizedTestsPct:
  "BazelizedTestsPct (calculateLanguageSummary lang ps) =
     float64Pct (int (length (filter (\<lambda>p. HasTestFiles p \<and> TestTargetCount p > 0) ps)))
       (int (length (filter HasTestFiles ps)))"
  by (simp add: summary_simps float64Pct_def)

text \<open>
  The percentage of a part of a total below \<open>2^63\<close> is a finite value between 0 and 100,
  and it is within rounding of the exact quotient when the total is at most \<open>2^53\<close>.
\<close>

lemma float64Pct_within:
  assumes "m \<le> n" "n < 2 ^ 63"
  shows "withinPercent (float64Pct (int m) (int n))"
proof (cases "n = 0")
  case True
  then show ?thesis
    by (simp add: float64Pct_def withinPercent_def)
next
  case False
  have "int n < int (2 ^ 63)"
    using assms(2) by (simp only: of_nat_less_iff)
  then have "int n < 2 ^ 63"
    by simp
  with percent_within [of "int m" "int n"] assms(1) False show ?thesis
    by (auto simp: float64Pct_def withinPercent_def)
qed

lemma float64Pct_accurate:
  assumes "m \<le> n" "0 < n" "n \<le> 2 ^ 53"
  shows "withinRounding (float64Pct (int m) (int n)) (exactPct (int m) (int n))"
proof -
  have "int n \<le> int (2 ^ 53)"
    using assms(3) by (simp only: of_nat_le_iff)
  then have "int n \<le> 2 ^ 53"
    by simp
  with percent_accuracy [of "int m" "int n"] assms(1,2) show ?thesis
    by (auto simp: float64Pct_def withinRounding_def exactPct_def)
qed

section \<open>Properties of the insertion sort\<close>

lemma mset_insertLeft: "mset (insertLeft lt x ys) = add_mset x (mset ys)"
  by (induction ys) simp_all

lemma mset_fold_insertLeft: "mset (fold (insertLeft lt) xs acc) = mset xs + mset acc"
  by (induction xs arbitrary: acc) (simp_all add: mset_insertLeft)

lemma mset_sortSlice: "mset (sortSlice lt xs) = mset xs"
  by (simp add: sortSlice_def mset_fold_insertLeft)

lemma set_sortSlice: "set (sortSlice lt xs) = set xs"
  using mset_sortSlice [of lt xs] by (metis set_mset_mset)

lemma set_insertLeft: "set (insertLeft lt x ys) = insert x (set ys)"
  using mset_insertLeft [of lt x ys] by (metis set_mset_mset set_mset_add_mset_insert)

lemma sorted_insertLeft:
  fixes f :: "'a \<Rightarrow> int"
  shows "sorted_wrt (\<lambda>a b. f a \<le> f b) ys \<Longrightarrow>
         sorted_wrt (\<lambda>a b. f a \<le> f b) (insertLeft (\<lambda>a b. f b < f a) x ys)"
  by (induction ys) (auto simp: set_insertLeft)

lemma sorted_fold_insertLeft:
  fixes f :: "'a \<Rightarrow> int"
  shows "sorted_wrt (\<lambda>a b. f a \<le> f b) acc \<Longrightarrow>
         sorted_wrt (\<lambda>a b. f a \<le> f b) (fold (insertLeft (\<lambda>a b. f b < f a)) xs acc)"
  by (induction xs arbitrary: acc) (simp_all add: sorted_insertLeft)

lemma sorted_sortSlice:
  fixes f :: "'a \<Rightarrow> int"
  shows "sorted_wrt (\<lambda>a b. f b \<le> f a) (sortSlice (\<lambda>a b. f b < f a) xs)"
  using sorted_fold_insertLeft [of f "[]" xs] by (simp add: sortSlice_def sorted_wrt_rev)

lemma morePackages_key: "morePackages = (\<lambda>a b. dm_TotalPackages b < dm_TotalPackages a)"
  by (intro ext) (simp add: morePackages_def)

section \<open>Properties of the grouping by top-level directory\<close>

lemma grouped_step: "grouped ps m \<Longrightarrow> grouped (ps @ [p]) (groupPackage p m)"
  unfolding grouped_def
  by (auto simp add: groupPackage_def Let_def update_conv' counted_def filter_empty_conv)

lemma grouped_fold: "grouped qs m \<Longrightarrow> grouped (qs @ ps) (fold groupPackage ps m)"
proof (induction ps arbitrary: qs m)
  case Nil
  then show ?case by simp
next
  case (Cons p ps)
  from Cons.prems have "grouped (qs @ [p]) (groupPackage p m)"
    by (rule grouped_step)
  from Cons.IH [OF this] show ?case
    by simp
qed

lemma grouped_all: "grouped ps (fold groupPackage ps [])"
  using grouped_fold [of "[]" "[]" ps] by (simp add: grouped_def)

lemma distinct_groupPackage: "distinct (map fst m) \<Longrightarrow> distinct (map fst (groupPackage p m))"
  by (simp add: groupPackage_def Let_def distinct_update)

lemma distinct_fold_group: "distinct (map fst m) \<Longrightarrow> distinct (map fst (fold groupPackage ps m))"
  by (induction ps arbitrary: m) (simp_all add: distinct_groupPackage)

lemma group_entry:
  assumes "(k, dm) \<in> set (fold groupPackage ps [])"
  shows "dm = counted k ps \<and> (\<exists>p\<in>set ps. topDirOf p = k)"
proof -
  have "distinct (map fst (fold groupPackage ps []))"
    by (rule distinct_fold_group) simp
  with assms have "map_of (fold groupPackage ps []) k = Some dm"
    by simp
  with grouped_all [of ps] show ?thesis
    by (auto simp: grouped_def filter_empty_conv split: if_split_asm)
qed

lemma sum_update:
  fixes f :: "'v \<Rightarrow> int"
  shows "sum_list (map (f \<circ> snd) (AList.update k v al)) =
         sum_list (map (f \<circ> snd) al) + f v - (case map_of al k of None \<Rightarrow> 0 | Some w \<Rightarrow> f w)"
  by (induction al) auto

lemma sum_groupPackage:
  "sum_list (map (dm_TotalPackages \<circ> snd) (groupPackage p m)) =
   sum_list (map (dm_TotalPackages \<circ> snd) m) + 1"
  by (simp add: groupPackage_def Let_def sum_update split: option.split)

lemma sum_fold_group:
  "sum_list (map (dm_TotalPackages \<circ> snd) (fold groupPackage ps m)) =
   sum_list (map (dm_TotalPackages \<circ> snd) m) + int (length ps)"
  by (induction ps arbitrary: m) (simp_all add: sum_groupPackage)

lemma breakdown_cases:
  assumes "calculateDirectoryBreakdown ps res"
  shows "mset res = mset (map (dirPercentages \<circ> snd) (fold groupPackage ps []))"
  using assms
proof cases
  case (breakdown dms)
  then have "mset dms = mset (map snd (fold groupPackage ps []))"
    by (simp add: rangeOrder_def)
  then have "mset (map dirPercentages dms) = mset (map dirPercentages (map snd (fold groupPackage ps [])))"
    by (metis mset_map)
  with breakdown show ?thesis
    by (simp add: mset_sortSlice)
qed

lemma breakdown_in_order:
  "calculateDirectoryBreakdown ps
     (sortSlice morePackages (map dirPercentages (map snd (fold groupPackage ps []))))"
  by (rule breakdown) (simp add: rangeOrder_def)

lemma breakdown_entry:
  assumes "calculateDirectoryBreakdown ps res" and "d \<in> set res"
  shows "\<exists>k. d = dirPercentages (counted k ps) \<and> (\<exists>p\<in>set ps. topDirOf p = k)"
proof -
  from assms(1) have "set res = set (map (dirPercentages \<circ> snd) (fold groupPackage ps []))"
    by (metis breakdown_cases set_mset_mset)
  with assms(2) obtain k dm where "(k, dm) \<in> set (fold groupPackage ps [])"
    and "d = dirPercentages dm"
    by auto
  with group_entry [of k dm ps] show ?thesis
    by auto
qed

lemma dirPercentages_counted:
  assumes "\<exists>p\<in>set ps. topDirOf p = k"
  shows "Name (dirPercentages (counted k ps)) = k"
    and "dm_TotalPackages (dirPercentages (counted k ps)) = int (length (filter (\<lambda>p. topDirOf p = k) ps))"
    and "BazelizedPackages (dirPercentages (counted k ps)) = int (length (filter (\<lambda>p. topDirOf p = k \<and> HasBuildFile p) ps))"
    and "dm_PackagesWithTests (dirPercentages (counted k ps)) = int (length (filter (\<lambda>p. topDirOf p = k \<and> HasTestFiles p) ps))"
    and "dm_BazelizationPct (dirPercentages (counted k ps)) =
           float64Pct (int (length (filter (\<lambda>p. topDirOf p = k \<and> HasBuildFile p) ps)))
             (int (length (filter (\<lambda>p. topDirOf p = k) ps)))"
    and "dm_TestCoveragePct (dirPercentages (counted k ps)) =
           float64Pct (int (length (filter (\<lambda>p. topDirOf p = k \<and> HasTestFiles p) ps)))
             (int (length (filter (\<lambda>p. topDirOf p = k) ps)))"
    and "0 < length (filter (\<lambda>p. topDirOf p = k) ps)"
  using assms
  by (auto simp: dirPercentages_def counted_def float64Pct_def filter_empty_conv)

lemma filter_conj_le: "length (filter (\<lambda>p. P p \<and> Q p) ps) \<le> length (filter P ps)"
  by (induction ps) auto

text \<open>
  Claim C4, amended. In every language summary and in every entry of a directory
  breakdown (of fewer than \<open>2^63\<close> packages, the range of Go's \<^verbatim>\<open>int\<close>), the bazelization
  and the test-coverage percentage are finite \<^verbatim>\<open>float64\<close> values between 0 and 100:
  the value \<^verbatim>\<open>float64(count) / float64(total) * 100\<close>, with the quotient and the product
  each rounded to the nearest \<^verbatim>\<open>float64\<close>, when the total number of packages is positive,
  and exactly 0 when it is 0. No division by zero takes place, so neither is NaN or an
  infinity. The value is within a relative error of \<open>2^(-51)\<close> of \<open>100 count / total\<close>
  (shown for totals up to \<open>2^53\<close>), and it need not be equal to it.
\<close>

theorem percentages_well_defined:
  assumes "length packages < 2 ^ 63"
  shows "(let s = calculateLanguageSummary lang packages
    in BazelizationPct s = float64Pct (PackagesWithBuild s) (TotalPackages s)
       \<and> TestCoveragePct s = float64Pct (PackagesWithTests s) (TotalPackages s)
       \<and> withinPercent (BazelizationPct s) \<and> withinPercent (TestCoveragePct s)
       \<and> (TotalPackages s = 0 \<longrightarrow> BazelizationPct s = Finite 0 \<and> TestCoveragePct s = Finite 0)
       \<and> (0 < TotalPackages s \<and> TotalPackages s \<le> 2 ^ 53 \<longrightarrow>
            withinRounding (BazelizationPct s) (exactPct (PackagesWithBuild s) (TotalPackages s))
            \<and> withinRounding (TestCoveragePct s) (exactPct (PackagesWithTests s) (TotalPackages s)))
       \<and> 0 \<le> TotalPackages s)
   \<and> (calculateDirectoryBreakdown packages breakdown \<longrightarrow>
        (\<forall>d\<in>set breakdown.
           dm_BazelizationPct d = float64Pct (BazelizedPackages d) (dm_TotalPackages d)
           \<and> dm_TestCoveragePct d = float64Pct (dm_PackagesWithTests d) (dm_TotalPackages d)
           \<and> withinPercent (dm_BazelizationPct d) \<and> withinPercent (dm_TestCoveragePct d)
           \<and> (dm_TotalPackages d \<le> 2 ^ 53 \<longrightarrow>
                withinRounding (dm_BazelizationPct d)
                  (exactPct (BazelizedPackages d) (dm_TotalPackages d))
                \<and> withinRounding (dm_TestCoveragePct d)
                  (exactPct (dm_PackagesWithTests d) (dm_TotalPackages d)))
           \<and> 0 < dm_TotalPackages d))"
proof (rule conjI)
  let ?n = "length packages"
  let ?b = "length (filter HasBuildFile packages)"
  let ?t = "length (filter HasTestFiles packages)"
  have le: "?b \<le> ?n" "?t \<le> ?n"
    by simp_all
  have within: "withinPercent (float64Pct (int ?b) (int ?n))"
    "withinPercent (float64Pct (int ?t) (int ?n))"
    by (rule float64Pct_within [OF le(1) assms], rule float64Pct_within [OF le(2) assms])
  have zero: "?n = 0 \<longrightarrow> float64Pct (int ?b) (int ?n) = Finite 0
                \<and> float64Pct (int ?t) (int ?n) = Finite 0"
    by (simp add: float64Pct_def)
  have near: "0 < ?n \<and> int ?n \<le> 2 ^ 53 \<longrightarrow>
      withinRounding (float64Pct (int ?b) (int ?n)) (exactPct (int ?b) (int ?n))
      \<and> withinRounding (float64Pct (int ?t) (int ?n)) (exactPct (int ?t) (int ?n))"
  proof
    assume "0 < ?n \<and> int ?n \<le> 2 ^ 53"
    then have "0 < ?n" "int ?n \<le> int (2 ^ 53)"
      by simp_all
    then have "0 < ?n" "?n \<le> 2 ^ 53"
      by (simp_all only: of_nat_le_iff)
    with le show "withinRounding (float64Pct (int ?b) (int ?n)) (exactPct (int ?b) (int ?n))
      \<and> withinRounding (float64Pct (int ?t) (int ?n)) (exactPct (int ?t) (int ?n))"
      by (simp add: float64Pct_accurate)
  qed
  show "let s = calculateLanguageSummary lang packages
    in BazelizationPct s = float64Pct (PackagesWithBuild s) (TotalPackages s)
       \<and> TestCoveragePct s = float64Pct (PackagesWithTests s) (TotalPackages s)
       \<and> withinPercent (BazelizationPct s) \<and> withinPercent (TestCoveragePct s)
       \<and> (TotalPackages s = 0 \<longrightarrow> BazelizationPct s = Finite 0 \<and> TestCoveragePct s = Finite 0)
       \<and> (0 < TotalPackages s \<and> TotalPackages s \<le> 2 ^ 53 \<longrightarrow>
            withinRounding (BazelizationPct s) (exactPct (PackagesWithBuild s) (TotalPackages s))
            \<and> withinRounding (TestCoveragePct s) (exactPct (PackagesWithTests s) (TotalPackages s)))
       \<and> 0 \<le> TotalPackages s"
    using within zero near
    by (simp add: Let_def summary_BazelizationPct summary_TestCoveragePct summary_TotalPackages
        summary_PackagesWithBuild summary_PackagesWithTests)
next
  show "calculateDirectoryBreakdown packages breakdown \<longrightarrow>
        (\<forall>d\<in>set breakdown.
           dm_BazelizationPct d = float64Pct (BazelizedPackages d) (dm_TotalPackages d)
           \<and> dm_TestCoveragePct d = float64Pct (dm_PackagesWithTests d) (dm_TotalPackages d)
           \<and> withinPercent (dm_BazelizationPct d) \<and> withinPercent (dm_TestCoveragePct d)
           \<and> (dm_TotalPackages d \<le> 2 ^ 53 \<longrightarrow>
                withinRounding (dm_BazelizationPct d)
                  (exactPct (BazelizedPackages d) (dm_TotalPackages d))
                \<and> withinRounding (dm_TestCoveragePct d)
                  (exactPct (dm_PackagesWithTests d) (dm_TotalPackages d)))
           \<and> 0 < dm_TotalPackages d)"
  proof (rule impI, rule ballI)
    fix d
    assume "calculateDirectoryBreakdown packages breakdown" and "d \<in> set breakdown"
    then obtain k where d: "d = dirPercentages (counted k packages)"
      and k: "\<exists>p\<in>set packages. topDirOf p = k"
      using breakdown_entry by blast
    note facts = dirPercentages_counted [OF k]
    let ?n = "length (filter (\<lambda>p. topDirOf p = k) packages)"
    let ?b = "length (filter (\<lambda>p. topDirOf p = k \<and> HasBuildFile p) packages)"
    let ?t = "length (filter (\<lambda>p. topDirOf p = k \<and> HasTestFiles p) packages)"
    have le: "?b \<le> ?n" "?t \<le> ?n"
      by (rule filter_conj_le)+
    have "?n \<le> length packages"
      by simp
    from this assms have n63: "?n < 2 ^ 63"
      by (rule le_less_trans)
    have within: "withinPercent (float64Pct (int ?b) (int ?n))"
      "withinPercent (float64Pct (int ?t) (int ?n))"
      by (rule float64Pct_within [OF le(1) n63], rule float64Pct_within [OF le(2) n63])
    have near: "int ?n \<le> 2 ^ 53 \<longrightarrow>
        withinRounding (float64Pct (int ?b) (int ?n)) (exactPct (int ?b) (int ?n))
        \<and> withinRounding (float64Pct (int ?t) (int ?n)) (exactPct (int ?t) (int ?n))"
    proof
      assume "int ?n \<le> 2 ^ 53"
      then have "int ?n \<le> int (2 ^ 53)"
        by simp
      then have "?n \<le> 2 ^ 53"
        by (simp only: of_nat_le_iff)
      with le facts(7)
      show "withinRounding (float64Pct (int ?b) (int ?n)) (exactPct (int ?b) (int ?n))
        \<and> withinRounding (float64Pct (int ?t) (int ?n)) (exactPct (int ?t) (int ?n))"
        by (simp add: float64Pct_accurate)
    qed
    show "dm_BazelizationPct d = float64Pct (BazelizedPackages d) (dm_TotalPackages d)
           \<and> dm_TestCoveragePct d = float64Pct (dm_PackagesWithTests d) (dm_TotalPackages d)
           \<and> withinPercent (dm_BazelizationPct d) \<and> withinPercent (dm_TestCoveragePct d)
           \<and> (dm_TotalPackages d \<le> 2 ^ 53 \<longrightarrow>
                withinRounding (dm_BazelizationPct d)
                  (exactPct (BazelizedPackages d) (dm_TotalPackages d))
                \<and> withinRounding (dm_TestCoveragePct d)
                  (exactPct (dm_PackagesWithTests d) (dm_TotalPackages d)))
           \<and> 0 < dm_TotalPackages d"
      using within near facts(7) by (simp add: d facts(1-6))
  qed
qed

text \<open>
  Claim C8. The \<open>totalPackages\<close> fields of the entries of the directory breakdown add up
  to the total package count of the Go summary. The entries have distinct names, each
  entry counts the packages whose top-level directory (\<open>(root)\<close> for the repository
  root) is its name, and every package has its entry: the grouping partitions the list.
\<close>

theorem breakdown_partition:
  "calculateDirectoryBreakdown packages breakdown \<Longrightarrow>
     sum_list (map dm_TotalPackages breakdown) = TotalPackages (calculateLanguageSummary ''go'' packages)
     \<and> distinct (map Name breakdown)
     \<and> (\<forall>d\<in>set breakdown.
           dm_TotalPackages d = int (length (filter (\<lambda>p. topDirOf p = Name d) packages)))
     \<and> (\<forall>p\<in>set packages. \<exists>d\<in>set breakdown. Name d = topDirOf p)"
proof (intro conjI ballI)
  assume b: "calculateDirectoryBreakdown packages breakdown"
  let ?G = "fold groupPackage packages []"
  from b have m: "mset breakdown = mset (map (dirPercentages \<circ> snd) ?G)"
    by (rule breakdown_cases)
  have tp: "dm_TotalPackages (dirPercentages dm) = dm_TotalPackages dm" for dm
    by (simp add: dirPercentages_def)
  have nm: "Name (dirPercentages dm) = Name dm" for dm
    by (simp add: dirPercentages_def)
  from m have "mset (map dm_TotalPackages breakdown)
                 = mset (map dm_TotalPackages (map (dirPercentages \<circ> snd) ?G))"
    by (metis mset_map)
  then have "sum_list (map dm_TotalPackages breakdown)
               = sum_list (map dm_TotalPackages (map (dirPercentages \<circ> snd) ?G))"
    by (metis sum_mset_sum_list)
  also have "\<dots> = sum_list (map (dm_TotalPackages \<circ> snd) ?G)"
    by (simp add: comp_def tp)
  also have "\<dots> = int (length packages)"
    by (simp add: sum_fold_group)
  finally show "sum_list (map dm_TotalPackages breakdown)
                  = TotalPackages (calculateLanguageSummary ''go'' packages)"
    by (simp add: summary_TotalPackages)
  have keys: "map Name (map (dirPercentages \<circ> snd) ?G) = map fst ?G"
    unfolding map_map
  proof (rule map_cong [OF refl])
    fix e assume "e \<in> set ?G"
    then have "snd e = counted (fst e) packages"
      using group_entry [of "fst e" "snd e" packages] by simp
    then show "(Name \<circ> (dirPercentages \<circ> snd)) e = fst e"
      by (simp add: nm counted_def)
  qed
  have "distinct (map fst ?G)"
    by (rule distinct_fold_group) simp
  then have "distinct (map Name (map (dirPercentages \<circ> snd) ?G))"
    by (simp only: keys)
  moreover from m have "mset (map Name breakdown) = mset (map Name (map (dirPercentages \<circ> snd) ?G))"
    by (metis mset_map)
  ultimately show "distinct (map Name breakdown)"
    by (metis mset_eq_imp_distinct_iff)
next
  fix d
  assume "calculateDirectoryBreakdown packages breakdown" and "d \<in> set breakdown"
  then obtain k where d: "d = dirPercentages (counted k packages)"
    and k: "\<exists>p\<in>set packages. topDirOf p = k"
    using breakdown_entry by blast
  show "dm_TotalPackages d = int (length (filter (\<lambda>p. topDirOf p = Name d) packages))"
    by (simp add: d dirPercentages_counted(1,2) [OF k])
next
  fix p
  assume b: "calculateDirectoryBreakdown packages breakdown" and p: "p \<in> set packages"
  let ?G = "fold groupPackage packages []"
  from grouped_all [of packages] p have "map_of ?G (topDirOf p) = Some (counted (topDirOf p) packages)"
    by (auto simp: grouped_def filter_empty_conv)
  then have "(topDirOf p, counted (topDirOf p) packages) \<in> set ?G"
    by (rule map_of_SomeD)
  then have "dirPercentages (counted (topDirOf p) packages) \<in> set (map (dirPercentages \<circ> snd) ?G)"
    by force
  also from b have "set (map (dirPercentages \<circ> snd) ?G) = set breakdown"
    by (metis breakdown_cases set_mset_mset)
  finally have "dirPercentages (counted (topDirOf p) packages) \<in> set breakdown" .
  moreover have "Name (dirPercentages (counted (topDirOf p) packages)) = topDirOf p"
    by (simp add: dirPercentages_def counted_def)
  ultimately show "\<exists>d\<in>set breakdown. Name d = topDirOf p"
    by blast
qed

text \<open>
  Claim C6, amended. The directory breakdown is sorted by total package count in
  descending order, and it is a rearrangement of the per-directory entries: no second
  sort key is applied. The order of entries with equal counts is not determined by the
  package list.
\<close>

theorem breakdown_sorted_desc:
  assumes "calculateDirectoryBreakdown packages breakdown"
  shows "sorted_wrt (\<lambda>a b. dm_TotalPackages b \<le> dm_TotalPackages a) breakdown
     \<and> mset breakdown = mset (map (dirPercentages \<circ> snd) (fold groupPackage packages []))"
  using assms
proof cases
  case (breakdown dms)
  have "sorted_wrt (\<lambda>a b. dm_TotalPackages b \<le> dm_TotalPackages a)
          (sortSlice (\<lambda>a b. dm_TotalPackages b < dm_TotalPackages a) (map dirPercentages dms))"
    by (rule sorted_sortSlice)
  then have sorted: "sorted_wrt (\<lambda>a b. dm_TotalPackages b \<le> dm_TotalPackages a) breakdown"
    by (simp add: breakdown(1) morePackages_key)
  from breakdown(2) have "mset dms = mset (map snd (fold groupPackage packages []))"
    by (simp add: rangeOrder_def)
  then have "mset (map dirPercentages dms)
               = mset (map dirPercentages (map snd (fold groupPackage packages [])))"
    by (metis mset_map)
  then have "mset breakdown = mset (map (dirPercentages \<circ> snd) (fold groupPackage packages []))"
    by (simp add: breakdown(1) mset_sortSlice)
  with sorted show ?thesis
    by simp
qed

section \<open>The metrics on examples\<close>

text \<open>
  Some percentages: \<open>50\<close> and \<open>100\<close> come out exactly; 1 of 3 is \<open>33.33333333333333\<close>,
  2 of 3 is \<open>66.66666666666666\<close>, and 7 of 25 is \<open>28.000000000000004\<close>, the \<^verbatim>\<open>float64\<close>
  next above 28.
\<close>

lemma percent_of_none: "0 < m \<Longrightarrow> m \<le> 2 ^ 53 \<Longrightarrow> float64Pct 0 m = Finite 0"
  by (simp add: float64Pct_def fromInt_exact round64_0)

lemma percent_examples:
  "float64Pct 1 2 = Finite 50"
  "float64Pct 2 2 = Finite 100"
  "float64Pct 25 25 = Finite 100"
  using round64_eval [of "1 / 2" 53] round64_eval [of 50 47]
    round64_eval [of 1 52] round64_eval [of 100 46]
  by (simp_all add: float64Pct_def fromInt_exact roundEven_def)

lemma percent_1_of_3: "float64Pct 1 3 = Finite (2345624805922133 / 2 ^ 46)"
proof -
  have "fdiv (fromInt 1) (fromInt 3) = round64 (1 / 3)"
    by (simp add: fromInt_exact)
  also have "\<dots> = Finite (6004799503160661 / 2 ^ 54)"
    using round64_eval [of "1 / 3" 54] by (simp add: roundEven_def)
  finally have "float64Pct 1 3 = round64 (6004799503160661 / 2 ^ 54 * 100)"
    by (simp only: float64Pct_def fmul.simps) simp
  also have "\<dots> = Finite (2345624805922133 / 2 ^ 46)"
    using round64_eval [of "6004799503160661 / 2 ^ 54 * 100" 47] by (simp add: roundEven_def)
  finally show ?thesis .
qed

lemma percent_2_of_3: "float64Pct 2 3 = Finite (2345624805922133 / 2 ^ 45)"
proof -
  have "fdiv (fromInt 2) (fromInt 3) = round64 (2 / 3)"
    by (simp add: fromInt_exact)
  also have "\<dots> = Finite (6004799503160661 / 2 ^ 53)"
    using round64_eval [of "2 / 3" 53] by (simp add: roundEven_def)
  finally have "float64Pct 2 3 = round64 (6004799503160661 / 2 ^ 53 * 100)"
    by (simp only: float64Pct_def fmul.simps) simp
  also have "\<dots> = Finite (2345624805922133 / 2 ^ 45)"
    using round64_eval [of "6004799503160661 / 2 ^ 53 * 100" 46] by (simp add: roundEven_def)
  finally show ?thesis .
qed

lemma percent_7_of_25: "float64Pct 7 25 = Finite (7881299347898369 / 2 ^ 48)"
proof -
  have "fdiv (fromInt 7) (fromInt 25) = round64 (7 / 25)"
    by (simp add: fromInt_exact)
  also have "\<dots> = Finite (5044031582654956 / 2 ^ 54)"
    using round64_eval [of "7 / 25" 54] by (simp add: roundEven_def)
  finally have "float64Pct 7 25 = round64 (5044031582654956 / 2 ^ 54 * 100)"
    by (simp only: float64Pct_def fmul.simps) simp
  also have "\<dots> = Finite (7881299347898369 / 2 ^ 48)"
    using round64_eval [of "5044031582654956 / 2 ^ 54 * 100" 48] by (simp add: roundEven_def)
  finally show ?thesis .
qed

lemma dirPercentages_float64Pct:
  "dirPercentages dm =
     (if dm_TotalPackages dm > 0
      then dm\<lparr>dm_BazelizationPct := float64Pct (BazelizedPackages dm) (dm_TotalPackages dm),
               dm_TestCoveragePct := float64Pct (dm_PackagesWithTests dm) (dm_TotalPackages dm)\<rparr>
      else dm)"
  by (simp add: dirPercentages_def float64Pct_def)

lemmas ex_eval = ex_pkg_def newPackage_def groupPackage_def topDirOf_def getTopLevelDir_def
  filepathClean_def sep_def Let_def dirPercentages_float64Pct percent_examples percent_of_none
  sortSlice_def morePackages_def

lemma ex_topDirs: "map topDirOf ex_packages = [''a'', ''b'', ''a'']"
  by (simp add: ex_packages_def ex_eval)

lemma ex_groups:
  "fold groupPackage ex_packages [] =
     [(''a'', \<lparr>Name = ''a'', dm_TotalPackages = 2, BazelizedPackages = 1, dm_PackagesWithTests = 2,
       dm_BazelizationPct = Finite 0, dm_TestCoveragePct = Finite 0\<rparr>),
      (''b'', \<lparr>Name = ''b'', dm_TotalPackages = 1, BazelizedPackages = 0, dm_PackagesWithTests = 0,
       dm_BazelizationPct = Finite 0, dm_TestCoveragePct = Finite 0\<rparr>)]"
  by (simp add: ex_packages_def ex_eval)

lemma ex_breakdown_outcome: "calculateDirectoryBreakdown ex_packages ex_breakdown"
  using breakdown_in_order [of ex_packages]
  by (simp add: ex_groups ex_breakdown_def dirPercentages_float64Pct percent_examples
      percent_of_none sortSlice_def morePackages_def)

lemma ex_seven_counts:
  "length ex_seven_of_25 = 25"
  "length (filter HasBuildFile ex_seven_of_25) = 7"
  "length (filter HasTestFiles ex_seven_of_25) = 25"
  "length (filter (\<lambda>p. HasTestFiles p \<and> 0 < TestTargetCount p) ex_seven_of_25) = 7"
  by (simp_all add: ex_seven_of_25_def ex_pkg_def newPackage_def filter_replicate)

text \<open>
  Claim C1, amended. The bazelized-tests percentage of a language summary is the
  \<^verbatim>\<open>float64\<close> value \<^verbatim>\<open>float64(n) / float64(d) * 100\<close>, where \<open>n\<close> is the number of packages
  that have test files and a test-target count above 0 and \<open>d\<close> the number of packages
  with test files, and it is 0 when no package has test files. The quotient and the
  product are each rounded to the nearest \<^verbatim>\<open>float64\<close>, so the value is within a relative
  error of \<open>2^(-51)\<close> of \<open>100 n / d\<close> (shown for up to \<open>2^53\<close> packages) and need not be equal
  to it. A package without test files is not counted, whatever its test-target count.
\<close>

theorem bazelized_tests_pct:
  "BazelizedTestsPct (calculateLanguageSummary lang packages)
     = float64Pct (int (length (filter (\<lambda>p. HasTestFiles p \<and> 0 < TestTargetCount p) packages)))
         (int (length (filter HasTestFiles packages)))
   \<and> (filter HasTestFiles packages = [] \<longrightarrow>
        BazelizedTestsPct (calculateLanguageSummary lang packages) = Finite 0)
   \<and> (filter HasTestFiles packages \<noteq> [] \<and> length packages \<le> 2 ^ 53 \<longrightarrow>
        withinRounding (BazelizedTestsPct (calculateLanguageSummary lang packages))
          (exactPct (int (length (filter (\<lambda>p. HasTestFiles p \<and> 0 < TestTargetCount p) packages)))
             (int (length (filter HasTestFiles packages)))))
   \<and> (\<not> HasTestFiles q \<longrightarrow>
        BazelizedTestsPct (calculateLanguageSummary lang (packages @ [q]))
          = BazelizedTestsPct (calculateLanguageSummary lang packages))"
proof (intro conjI)
  let ?tested = "\<lambda>ps. filter HasTestFiles ps"
  let ?bazelized = "\<lambda>ps. filter (\<lambda>p. HasTestFiles p \<and> 0 < TestTargetCount p) ps"
  have pct: "BazelizedTestsPct (calculateLanguageSummary lang ps) =
     float64Pct (int (length (?bazelized ps))) (int (length (?tested ps)))" for ps
    by (rule summary_BazelizedTestsPct)
  show "BazelizedTestsPct (calculateLanguageSummary lang packages) =
     float64Pct (int (length (?bazelized packages))) (int (length (?tested packages)))"
    by (rule pct)
  show "?tested packages = [] \<longrightarrow>
        BazelizedTestsPct (calculateLanguageSummary lang packages) = Finite 0"
    by (simp add: pct float64Pct_def)
  show "?tested packages \<noteq> [] \<and> length packages \<le> 2 ^ 53 \<longrightarrow>
        withinRounding (BazelizedTestsPct (calculateLanguageSummary lang packages))
          (exactPct (int (length (?bazelized packages))) (int (length (?tested packages))))"
  proof
    assume a: "?tested packages \<noteq> [] \<and> length packages \<le> 2 ^ 53"
    have "length (?bazelized packages) \<le> length (?tested packages)"
      by (rule filter_conj_le)
    moreover from a have "0 < length (?tested packages)"
      by simp
    moreover have "length (?tested packages) \<le> length packages"
      by simp
    with a have "length (?tested packages) \<le> 2 ^ 53"
      by linarith
    ultimately show "withinRounding (BazelizedTestsPct (calculateLanguageSummary lang packages))
          (exactPct (int (length (?bazelized packages))) (int (length (?tested packages))))"
      unfolding pct by (rule float64Pct_accurate)
  qed
  show "\<not> HasTestFiles q \<longrightarrow>
        BazelizedTestsPct (calculateLanguageSummary lang (packages @ [q]))
          = BazelizedTestsPct (calculateLanguageSummary lang packages)"
  proof
    assume q: "\<not> HasTestFiles q"
    then have "?tested (packages @ [q]) = ?tested packages"
      and "?bazelized (packages @ [q]) = ?bazelized packages"
      by simp_all
    then show "BazelizedTestsPct (calculateLanguageSummary lang (packages @ [q]))
          = BazelizedTestsPct (calculateLanguageSummary lang packages)"
      unfolding pct by simp
  qed
qed

theorem bazelized_tests_pct_witness:
  "\<not> HasTestFiles (ex_pkg ''c'' True False 3)
   \<and> BazelizedTestsPct (calculateLanguageSummary ''go''
        ([ex_pkg ''a'' True True 1, ex_pkg ''b'' True True 0] @ [ex_pkg ''c'' True False 3]))
       = Finite 50
   \<and> withinRounding (Finite 50) (exactPct 1 2)"
  using bazelized_tests_pct [of "''go''" "[ex_pkg ''a'' True True 1, ex_pkg ''b'' True True 0]"
      "ex_pkg ''c'' True False 3"]
  by (simp add: ex_pkg_def newPackage_def percent_examples withinRounding_def exactPct_def)

text \<open>
  Against claim C1 as stated: of the 25 packages of \<open>ex_seven_of_25\<close>, all with test files,
  7 have a test-target count above 0, and \<open>100 \<times> 7 / 25\<close> is 28; the percentage of the
  summary is the \<^verbatim>\<open>float64\<close> next above 28, which Go prints as \<open>28.000000000000004\<close>.
\<close>

theorem bazelized_tests_pct_counterexample:
  "PackagesWithTests (calculateLanguageSummary ''go'' ex_seven_of_25) = 25
   \<and> map TestTargetCount ex_seven_of_25 = replicate 7 1 @ replicate 18 0
   \<and> exactPct 7 25 = 28
   \<and> BazelizedTestsPct (calculateLanguageSummary ''go'' ex_seven_of_25)
       = Finite (7881299347898369 / 2 ^ 48)
   \<and> BazelizedTestsPct (calculateLanguageSummary ''go'' ex_seven_of_25) \<noteq> Finite 28"
proof -
  have "BazelizedTestsPct (calculateLanguageSummary ''go'' ex_seven_of_25) = float64Pct 7 25"
    by (simp add: summary_BazelizedTestsPct ex_seven_counts)
  then have "BazelizedTestsPct (calculateLanguageSummary ''go'' ex_seven_of_25)
       = Finite (7881299347898369 / 2 ^ 48)"
    by (simp only: percent_7_of_25)
  moreover have "map TestTargetCount ex_seven_of_25 = replicate 7 1 @ replicate 18 0"
    by (simp add: ex_seven_of_25_def ex_pkg_def newPackage_def)
  ultimately show ?thesis
    by (simp add: summary_PackagesWithTests ex_seven_counts exactPct_def)
qed

theorem percentages_well_defined_witness:
  "length ex_packages < 2 ^ 63
   \<and> calculateDirectoryBreakdown ex_packages ex_breakdown
   \<and> BazelizationPct (calculateLanguageSummary ''go'' ex_packages)
       = Finite (2345624805922133 / 2 ^ 46)
   \<and> TestCoveragePct (calculateLanguageSummary ''go'' ex_packages)
       = Finite (2345624805922133 / 2 ^ 45)
   \<and> withinPercent (Finite (2345624805922133 / 2 ^ 46))
   \<and> withinRounding (Finite (2345624805922133 / 2 ^ 46)) (exactPct 1 3)
   \<and> float64Pct 1 2 = Finite 50 \<and> withinPercent (Finite 50)"
  using percentages_well_defined [of ex_packages "''go''" ex_breakdown] ex_breakdown_outcome
  by (simp add: Let_def summary_TotalPackages summary_PackagesWithBuild summary_PackagesWithTests
      ex_packages_def ex_pkg_def newPackage_def ex_breakdown_def percent_1_of_3 percent_2_of_3
      percent_examples withinPercent_def withinRounding_def exactPct_def)

text \<open>
  Against claim C4 as stated: 7 of the 25 packages of \<open>ex_seven_of_25\<close> have a manifest,
  and \<open>100 \<times> 7 / 25\<close> is 28; the bazelization percentage of the summary is the \<^verbatim>\<open>float64\<close>
  next above 28.
\<close>

theorem percentages_rounding_counterexample:
  "PackagesWithBuild (calculateLanguageSummary ''go'' ex_seven_of_25) = 7
   \<and> TotalPackages (calculateLanguageSummary ''go'' ex_seven_of_25) = 25
   \<and> exactPct 7 25 = 28
   \<and> BazelizationPct (calculateLanguageSummary ''go'' ex_seven_of_25)
       = Finite (7881299347898369 / 2 ^ 48)
   \<and> BazelizationPct (calculateLanguageSummary ''go'' ex_seven_of_25) \<noteq> Finite 28"
proof -
  have "BazelizationPct (calculateLanguageSummary ''go'' ex_seven_of_25) = float64Pct 7 25"
    by (simp add: summary_BazelizationPct ex_seven_counts)
  then have "BazelizationPct (calculateLanguageSummary ''go'' ex_seven_of_25)
       = Finite (7881299347898369 / 2 ^ 48)"
    by (simp only: percent_7_of_25)
  then show ?thesis
    by (simp add: summary_PackagesWithBuild summary_TotalPackages ex_seven_counts exactPct_def)
qed

theorem breakdown_partition_witness:
  "calculateDirectoryBreakdown ex_packages ex_breakdown
   \<and> sum_list (map dm_TotalPackages ex_breakdown) = 3
   \<and> TotalPackages (calculateLanguageSummary ''go'' ex_packages) = 3"
  using breakdown_partition [OF ex_breakdown_outcome] ex_breakdown_outcome
  by (simp add: ex_breakdown_def)

theorem breakdown_sorted_desc_witness:
  "calculateDirectoryBreakdown ex_packages ex_breakdown
   \<and> map dm_TotalPackages ex_breakdown = [2, 1]"
  using breakdown_sorted_desc [OF ex_breakdown_outcome] ex_breakdown_outcome
  by (simp add: ex_breakdown_def)

text \<open>
  Against claim C6 as stated: the packages of \<open>ex_ties\<close> meet the directory \<open>a\<close> before
  the directory \<open>b\<close>, both with one package, and the breakdown that lists \<open>b\<close> before
  \<open>a\<close> is one of the outcomes, since the entries are taken from a Go map.
\<close>

theorem breakdown_ties_counterexample:
  "map topDirOf ex_ties = [''a'', ''b'']
   \<and> calculateDirectoryBreakdown ex_ties ex_ties_swapped
   \<and> map Name ex_ties_swapped = [''b'', ''a'']
   \<and> map dm_TotalPackages ex_ties_swapped = [1, 1]"
proof -
  have g: "fold groupPackage ex_ties [] =
     [(''a'', \<lparr>Name = ''a'', dm_TotalPackages = 1, BazelizedPackages = 0, dm_PackagesWithTests = 0,
       dm_BazelizationPct = Finite 0, dm_TestCoveragePct = Finite 0\<rparr>),
      (''b'', \<lparr>Name = ''b'', dm_TotalPackages = 1, BazelizedPackages = 0, dm_PackagesWithTests = 0,
       dm_BazelizationPct = Finite 0, dm_TestCoveragePct = Finite 0\<rparr>)]"
    by (simp add: ex_ties_def ex_eval)
  let ?dms = "[\<lparr>Name = ''b'', dm_TotalPackages = 1, BazelizedPackages = 0, dm_PackagesWithTests = 0,
       dm_BazelizationPct = Finite 0, dm_TestCoveragePct = Finite 0\<rparr>,
      \<lparr>Name = ''a'', dm_TotalPackages = 1, BazelizedPackages = 0, dm_PackagesWithTests = 0,
       dm_BazelizationPct = Finite 0, dm_TestCoveragePct = Finite 0\<rparr>]"
  have "rangeOrder (fold groupPackage ex_ties []) ?dms"
    by (simp add: g rangeOrder_def)
  then have "calculateDirectoryBreakdown ex_ties (sortSlice morePackages (map dirPercentages ?dms))"
    by (rule breakdown)
  then have "calculateDirectoryBreakdown ex_ties ex_ties_swapped"
    by (simp add: ex_ties_swapped_def dirPercentages_float64Pct percent_of_none sortSlice_def
        morePackages_def)
  then show ?thesis
    by (simp add: ex_ties_def ex_eval ex_ties_swapped_def)
qed

section \<open>Properties of the walk\<close>

lemma walk_files:
  "walk s dir rel base node st = fold (visitV s) (filesOf s dir rel base node) st"
  "walkEntries s dir rel es st = fold (visitV s) (filesIn s dir rel es) st"
  by (induction s dir rel base node st and s dir rel es st rule: walk_walkEntries.induct)
     (auto simp: walkFn_def visitV_def split: fsnode.splits)

text \<open>
  The files met in a list of entries: the regular files among the entries, and the files
  met in the entries of each directory among them that is not excluded.
\<close>

lemma filesIn_mem:
  "v \<in> set (filesIn s dir rel es) \<longleftrightarrow>
     (\<exists>name c. (name, File c) \<in> set es
        \<and> v = \<lparr>vdir = dir, vrel = rel, vname = name, vcontent = c\<rparr>)
     \<or> (\<exists>name sub. (name, Dir sub) \<in> set es \<and> \<not> skipped s name
          \<and> v \<in> set (filesIn s (filepathJoin dir name) (rel @ [name]) sub))"
proof (induction es)
  case Nil
  show ?case by simp
next
  case (Cons e es)
  obtain name node where e: "e = (name, node)"
    by (cases e)
  show ?case
    unfolding e using Cons.IH by (cases node) auto
qed

lemma walkRepo_files:
  "walkRepo s tree =
     fold (visitV s) (repoFiles s tree) \<lparr>dirMap = [], result = emptyResult (repoPath s)\<rparr>"
  by (simp add: walkRepo_def repoFiles_def walkFn_def walk_files visitV_def Let_def
      split: fsnode.splits)

lemma checkBuild_fst:
  "hasBuild (fst (checkBuild s f c x)) = (hasBuild (fst x) \<or> isManifest f)"
  "targets (fst (checkBuild s f c x)) =
     (if isManifest f then (case parseBuildFile s c of Inr t \<Rightarrow> Some t | Inl e \<Rightarrow> targets (fst x))
      else targets (fst x))"
  "goPkg (fst (checkBuild s f c x)) = goPkg (fst x)"
  "pythonPkg (fst (checkBuild s f c x)) = pythonPkg (fst x)"
  "rustPkg (fst (checkBuild s f c x)) = rustPkg (fst x)"
  "path (fst (checkBuild s f c x)) = path (fst x)"
  "relPath (fst (checkBuild s f c x)) = relPath (fst x)"
  by (cases x; simp add: checkBuild_def isManifest_def split: sum.split)+

lemma checkBuild_snd:
  "snd (checkBuild s f c x) =
     (if isManifest f then (snd x)\<lparr>TotalBUILDs := TotalBUILDs (snd x) + 1\<rparr> else snd x)"
  by (cases x) (simp add: checkBuild_def isManifest_def split: sum.split)

lemma checkGo_fst:
  "hasBuild (fst (checkGo d r f x)) = hasBuild (fst x)"
  "targets (fst (checkGo d r f x)) = targets (fst x)"
  "goPkg (fst (checkGo d r f x)) =
     (if hasSuffix f ''.go''
      then Some (addFile (hasSuffix f ''_test.go'')
                   (case goPkg (fst x) of None \<Rightarrow> newPackage d r LangGo | Some p \<Rightarrow> p))
      else goPkg (fst x))"
  "pythonPkg (fst (checkGo d r f x)) = pythonPkg (fst x)"
  "rustPkg (fst (checkGo d r f x)) = rustPkg (fst x)"
  "path (fst (checkGo d r f x)) = path (fst x)"
  "relPath (fst (checkGo d r f x)) = relPath (fst x)"
  by (cases x; simp add: checkGo_def Let_def addFile_def)+

lemma checkPython_fst:
  "hasBuild (fst (checkPython d r f x)) = hasBuild (fst x)"
  "targets (fst (checkPython d r f x)) = targets (fst x)"
  "goPkg (fst (checkPython d r f x)) = goPkg (fst x)"
  "pythonPkg (fst (checkPython d r f x)) =
     (if hasSuffix f ''.py''
      then Some (addFile (isPyTest f)
                   (case pythonPkg (fst x) of None \<Rightarrow> newPackage d r LangPython | Some p \<Rightarrow> p))
      else pythonPkg (fst x))"
  "rustPkg (fst (checkPython d r f x)) = rustPkg (fst x)"
  "path (fst (checkPython d r f x)) = path (fst x)"
  "relPath (fst (checkPython d r f x)) = relPath (fst x)"
  by (cases x; simp add: checkPython_def Let_def addFile_def isPyTest_def)+

lemma checkRust_fst:
  "hasBuild (fst (checkRust d r f x)) = hasBuild (fst x)"
  "targets (fst (checkRust d r f x)) = targets (fst x)"
  "goPkg (fst (checkRust d r f x)) = goPkg (fst x)"
  "pythonPkg (fst (checkRust d r f x)) = pythonPkg (fst x)"
  "rustPkg (fst (checkRust d r f x)) =
     (if hasSuffix f ''.rs''
      then Some (addFile False
                   (case rustPkg (fst x) of None \<Rightarrow> newPackage d r LangRust | Some p \<Rightarrow> p))
      else rustPkg (fst x))"
  "path (fst (checkRust d r f x)) = path (fst x)"
  "relPath (fst (checkRust d r f x)) = relPath (fst x)"
  by (cases x; simp add: checkRust_def Let_def addFile_def)+

lemma check_indep:
  "fst (checkBuild s f c (dp, res)) = fst (checkBuild s f c (dp, res'))"
  "fst (checkGo d r f (dp, res)) = fst (checkGo d r f (dp, res'))"
  "fst (checkPython d r f (dp, res)) = fst (checkPython d r f (dp, res'))"
  "fst (checkRust d r f (dp, res)) = fst (checkRust d r f (dp, res'))"
  by (simp_all add: checkBuild_def checkGo_def checkPython_def checkRust_def Let_def
      split: sum.split)

lemma check_indep':
  "fst x = fst y \<Longrightarrow> fst (checkGo d r f x) = fst (checkGo d r f y)"
  "fst x = fst y \<Longrightarrow> fst (checkPython d r f x) = fst (checkPython d r f y)"
  "fst x = fst y \<Longrightarrow> fst (checkRust d r f x) = fst (checkRust d r f y)"
  by (cases x; cases y; simp add: checkGo_def checkPython_def checkRust_def Let_def)+

lemma dirMap_visitV:
  "dirMap (visitV s v st) =
     AList.update (vdir v) (dirAfter s v (map_of (dirMap st) (vdir v))) (dirMap st)"
proof -
  have "fst (checkRust (vdir v) (relPathOf (vrel v)) (vname v)
           (checkPython (vdir v) (relPathOf (vrel v)) (vname v)
             (checkGo (vdir v) (relPathOf (vrel v)) (vname v)
               (checkBuild s (vname v) (vcontent v) (dp, result st)))))
        = fst (checkRust (vdir v) (relPathOf (vrel v)) (vname v)
           (checkPython (vdir v) (relPathOf (vrel v)) (vname v)
             (checkGo (vdir v) (relPathOf (vrel v)) (vname v)
               (checkBuild s (vname v) (vcontent v) (dp, emptyResult [])))))" for dp
    by (intro check_indep' check_indep)
  then show ?thesis
    by (simp add: visitV_def visitFile_def dirAfter_def Let_def split_beta)
qed

lemma map_of_visitV:
  "map_of (dirMap (visitV s v st)) k =
     (if k = vdir v then Some (dirAfter s v (map_of (dirMap st) (vdir v)))
      else map_of (dirMap st) k)"
  by (simp add: dirMap_visitV update_conv')

lemma dirAfter_fields:
  "path (dirAfter s v old) = path (baseDir v old)"
  "hasBuild (dirAfter s v old) = (hasBuild (baseDir v old) \<or> isManifest (vname v))"
  "targets (dirAfter s v old) =
     (if isManifest (vname v)
      then (case parseBuildFile s (vcontent v) of
              Inr t \<Rightarrow> Some t | Inl e \<Rightarrow> targets (baseDir v old))
      else targets (baseDir v old))"
  "goPkg (dirAfter s v old) =
     (if hasSuffix (vname v) ''.go''
      then Some (addFile (hasSuffix (vname v) ''_test.go'')
                   (case goPkg (baseDir v old) of
                      None \<Rightarrow> newPackage (vdir v) (relPathOf (vrel v)) LangGo | Some p \<Rightarrow> p))
      else goPkg (baseDir v old))"
  "pythonPkg (dirAfter s v old) =
     (if hasSuffix (vname v) ''.py''
      then Some (addFile (isPyTest (vname v))
                   (case pythonPkg (baseDir v old) of
                      None \<Rightarrow> newPackage (vdir v) (relPathOf (vrel v)) LangPython | Some p \<Rightarrow> p))
      else pythonPkg (baseDir v old))"
  "rustPkg (dirAfter s v old) =
     (if hasSuffix (vname v) ''.rs''
      then Some (addFile False
                   (case rustPkg (baseDir v old) of
                      None \<Rightarrow> newPackage (vdir v) (relPathOf (vrel v)) LangRust | Some p \<Rightarrow> p))
      else rustPkg (baseDir v old))"
  by (simp_all add: dirAfter_def baseDir_def [symmetric] checkBuild_fst checkGo_fst
      checkPython_fst checkRust_fst split: sum.split)

lemma baseDir_simps:
  "baseDir v (Some dp) = dp"
  "path (baseDir v None) = vdir v"
  "hasBuild (baseDir v None) = False"
  "targets (baseDir v None) = None"
  "goPkg (baseDir v None) = None"
  "pythonPkg (baseDir v None) = None"
  "rustPkg (baseDir v None) = None"
  by (simp_all add: baseDir_def)

lemma addFile_fields:
  "Path (addFile b p) = Path p"
  "RelPath (addFile b p) = RelPath p"
  "HasBuildFile (addFile b p) = HasBuildFile p"
  "TestTargetCount (addFile b p) = TestTargetCount p"
  "LibraryTargets (addFile b p) = LibraryTargets p"
  "BinaryTargets (addFile b p) = BinaryTargets p"
  "HasTestFiles (addFile b p) = (b \<or> HasTestFiles p)"
  "TestFileCount (addFile b p) = (if b then TestFileCount p + 1 else TestFileCount p)"
  "SourceFileCount (addFile b p) = (if b then SourceFileCount p else SourceFileCount p + 1)"
  by (simp_all add: addFile_def)

lemma newPackage_fields:
  "Path (newPackage d r l) = d"
  "RelPath (newPackage d r l) = r"
  "HasBuildFile (newPackage d r l) = False"
  "HasTestFiles (newPackage d r l) = False"
  "TestTargetCount (newPackage d r l) = 0"
  "LibraryTargets (newPackage d r l) = 0"
  "BinaryTargets (newPackage d r l) = 0"
  "TestFileCount (newPackage d r l) = 0"
  "SourceFileCount (newPackage d r l) = 0"
  by (simp_all add: newPackage_def)

lemma fold_snoc: "fold f (xs @ [x]) a = f x (fold f xs a)"
  by simp

lemma dir_invariant:
  assumes fresh: "\<And>vs v. \<forall>w\<in>set vs. vdir w \<noteq> vdir v \<Longrightarrow> P (vs @ [v]) (vdir v) (dirAfter s v None)"
    and step: "\<And>vs v dp. P vs (vdir v) dp \<Longrightarrow> P (vs @ [v]) (vdir v) (dirAfter s v (Some dp))"
    and frame: "\<And>vs v k dp. P vs k dp \<Longrightarrow> k \<noteq> vdir v \<Longrightarrow> P (vs @ [v]) k dp"
  shows "case map_of (dirMap (fold (visitV s) vs \<lparr>dirMap = [], result = r\<rparr>)) k of
           None \<Rightarrow> \<forall>v\<in>set vs. vdir v \<noteq> k
         | Some dp \<Rightarrow> P vs k dp"
proof (induction vs arbitrary: k rule: rev_induct)
  case Nil
  show ?case by simp
next
  case (snoc v vs)
  let ?st = "fold (visitV s) vs \<lparr>dirMap = [], result = r\<rparr>"
  show ?case
  proof (cases "k = vdir v")
    case True
    show ?thesis
    proof (cases "map_of (dirMap ?st) (vdir v)")
      case None
      with snoc.IH [of "vdir v"] have "\<forall>w\<in>set vs. vdir w \<noteq> vdir v"
        by simp
      then have "P (vs @ [v]) (vdir v) (dirAfter s v None)"
        by (rule fresh)
      with True None show ?thesis
        by (simp add: map_of_visitV)
    next
      case (Some dp)
      with snoc.IH [of "vdir v"] have "P vs (vdir v) dp"
        by simp
      then have "P (vs @ [v]) (vdir v) (dirAfter s v (Some dp))"
        by (rule step)
      with True Some show ?thesis
        by (simp add: map_of_visitV)
    qed
  next
    case False
    show ?thesis
    proof (cases "map_of (dirMap ?st) k")
      case None
      with snoc.IH [of k] False show ?thesis
        by (simp add: map_of_visitV)
    next
      case (Some dp)
      with snoc.IH [of k] have "P vs k dp"
        by simp
      from frame [OF this False] Some False show ?thesis
        by (simp add: map_of_visitV)
    qed
  qed
qed

lemma walk_buildInv:
  "case map_of (dirMap (fold (visitV s) vs \<lparr>dirMap = [], result = r\<rparr>)) k of
     None \<Rightarrow> \<forall>v\<in>set vs. vdir v \<noteq> k
   | Some dp \<Rightarrow> buildInv s vs k dp"
proof (rule dir_invariant)
  fix vs :: "visit list" and v :: visit
  assume "\<forall>w\<in>set vs. vdir w \<noteq> vdir v"
  then show "buildInv s (vs @ [v]) (vdir v) (dirAfter s v None)"
    by (auto simp: buildInv_def dirAfter_fields baseDir_simps split: sum.splits)
next
  fix vs :: "visit list" and v :: visit and dp
  assume "buildInv s vs (vdir v) dp"
  then show "buildInv s (vs @ [v]) (vdir v) (dirAfter s v (Some dp))"
    by (auto simp: buildInv_def dirAfter_fields baseDir_simps split: sum.splits)
next
  fix vs :: "visit list" and v :: visit and k dp
  assume "buildInv s vs k dp" and "k \<noteq> vdir v"
  then show "buildInv s (vs @ [v]) k dp"
    by (auto simp: buildInv_def)
qed

lemma freshPkg_addFile:
  assumes "freshPkg vs (vdir v) po"
  shows "freshPkg (vs @ [v]) (vdir v)
     (Some (addFile b (case po of None \<Rightarrow> newPackage (vdir v) (relPathOf (vrel v)) l | Some p \<Rightarrow> p)))"
  using assms by (cases po) (auto simp: freshPkg_def addFile_fields newPackage_fields)

lemma freshPkg_mono: "freshPkg vs k po \<Longrightarrow> freshPkg (vs @ [v]) k po"
  by (auto simp: freshPkg_def)

lemma freshPkg_None: "freshPkg vs k None"
  by (simp add: freshPkg_def)

lemma walk_pkgInv:
  "case map_of (dirMap (fold (visitV s) vs \<lparr>dirMap = [], result = r\<rparr>)) k of
     None \<Rightarrow> \<forall>v\<in>set vs. vdir v \<noteq> k
   | Some dp \<Rightarrow> pkgInv vs k dp"
proof (rule dir_invariant)
  fix vs :: "visit list" and v :: visit
  assume "\<forall>w\<in>set vs. vdir w \<noteq> vdir v"
  show "pkgInv (vs @ [v]) (vdir v) (dirAfter s v None)"
    using freshPkg_addFile [of vs v None]
    by (simp add: pkgInv_def dirAfter_fields baseDir_simps freshPkg_None addFile_fields
        newPackage_fields)
next
  fix vs :: "visit list" and v :: visit and dp
  assume "pkgInv vs (vdir v) dp"
  then show "pkgInv (vs @ [v]) (vdir v) (dirAfter s v (Some dp))"
    by (auto simp: pkgInv_def dirAfter_fields baseDir_simps freshPkg_addFile freshPkg_mono
        addFile_fields newPackage_fields split: option.splits)
next
  fix vs :: "visit list" and v :: visit and k dp
  assume "pkgInv vs k dp" and "k \<noteq> vdir v"
  then show "pkgInv (vs @ [v]) k dp"
    by (simp add: pkgInv_def freshPkg_mono)
qed

section \<open>The files counted in a directory\<close>

lemma manifestTargets_Nil: "manifestTargets s [] k = None"
  by (simp add: manifestTargets_def)

lemma manifestTargets_snoc:
  "manifestTargets s (vs @ [v]) k =
     (if vdir v = k \<and> isManifest (vname v)
      then (case parseBuildFile s (vcontent v) of
              Inr t \<Rightarrow> Some t | Inl e \<Rightarrow> manifestTargets s vs k)
      else manifestTargets s vs k)"
  unfolding manifestTargets_def by simp

lemma manifestTargets_none: "\<forall>w\<in>set vs. vdir w \<noteq> k \<Longrightarrow> manifestTargets s vs k = None"
  by (induction vs rule: rev_induct) (simp_all add: manifestTargets_Nil manifestTargets_snoc)

lemma manifestTargets_origin:
  "manifestTargets s vs k = Some t \<Longrightarrow>
     \<exists>v\<in>set vs. vdir v = k \<and> isManifest (vname v) \<and> parseBuildFile s (vcontent v) = Inr t"
  by (induction vs rule: rev_induct)
     (auto simp: manifestTargets_Nil manifestTargets_snoc split: if_splits sum.splits)

lemma manifestTargets_uniform:
  assumes "\<forall>v\<in>set vs. vdir v = k \<and> isManifest (vname v) \<longrightarrow> parseBuildFile s (vcontent v) = Inr t"
  shows "manifestTargets s vs k
           = (if \<exists>v\<in>set vs. vdir v = k \<and> isManifest (vname v) then Some t else None)"
  using assms
  by (induction vs rule: rev_induct) (auto simp: manifestTargets_Nil manifestTargets_snoc)

lemma manifestTargets_failing:
  assumes "\<forall>v\<in>set vs. vdir v = k \<and> isManifest (vname v) \<longrightarrow>
             (\<exists>e. parseBuildFile s (vcontent v) = Inl e)"
  shows "manifestTargets s vs k = None"
proof (cases "manifestTargets s vs k")
  case None
  then show ?thesis .
next
  case (Some t)
  from manifestTargets_origin [OF this] assms show ?thesis
    by auto
qed

lemma filesWhere_snoc:
  "filesWhere P (vs @ [v]) k = filesWhere P vs k + (if vdir v = k \<and> P (vname v) then 1 else 0)"
  by (simp add: filesWhere_def)

lemma filesWhere_nonneg: "0 \<le> filesWhere P vs k"
  by (simp add: filesWhere_def)

lemma filesWhere_none: "\<forall>w\<in>set vs. vdir w \<noteq> k \<Longrightarrow> filesWhere P vs k = 0"
  by (simp add: filesWhere_def filter_empty_conv)

lemma filesWhere_pos: "v \<in> set vs \<Longrightarrow> P (vname v) \<Longrightarrow> 0 < filesWhere P vs (vdir v)"
  by (auto simp: filesWhere_def filter_empty_conv)

lemma langInv_fresh: "\<forall>w\<in>set vs. vdir w \<noteq> k \<Longrightarrow> langInv src tst vs k None"
  by (simp add: langInv_def filesWhere_none)

lemma langInv_add:
  assumes "langInv src tst vs (vdir v) po" and "src (vname v) \<noteq> tst (vname v)"
  shows "langInv src tst (vs @ [v]) (vdir v)
           (Some (addFile (tst (vname v)) (case po of None \<Rightarrow> newPackage d r l | Some p \<Rightarrow> p)))"
  using assms filesWhere_nonneg [of src vs "vdir v"] filesWhere_nonneg [of tst vs "vdir v"]
  by (cases po) (auto simp: langInv_def filesWhere_snoc addFile_fields newPackage_fields)

lemma langInv_keep:
  assumes "langInv src tst vs k po" and "vdir v = k \<longrightarrow> \<not> src (vname v) \<and> \<not> tst (vname v)"
  shows "langInv src tst (vs @ [v]) k po"
  using assms by (cases po) (auto simp: langInv_def filesWhere_snoc)

lemma langInv_step:
  assumes "langInv src tst vs (vdir v) po"
    and "c \<longleftrightarrow> src (vname v) \<or> tst (vname v)"
    and "\<not> (src (vname v) \<and> tst (vname v))"
    and "c \<Longrightarrow> b = tst (vname v)"
  shows "langInv src tst (vs @ [v]) (vdir v)
           (if c then Some (addFile b (case po of None \<Rightarrow> newPackage d r l | Some p \<Rightarrow> p))
            else po)"
proof (cases c)
  case True
  with assms(2,3) have "src (vname v) \<noteq> tst (vname v)"
    by auto
  from langInv_add [OF assms(1) this] True assms(4) show ?thesis
    by simp
next
  case False
  with assms(2) have "vdir v = vdir v \<longrightarrow> \<not> src (vname v) \<and> \<not> tst (vname v)"
    by simp
  from langInv_keep [OF assms(1) this] False show ?thesis
    by simp
qed

lemma countInv_dirAfter:
  assumes "countInv s vs (vdir v) (baseDir v old)"
  shows "countInv s (vs @ [v]) (vdir v) (dirAfter s v old)"
proof -
  from assms have t: "targets (baseDir v old) = manifestTargets s vs (vdir v)"
    and g: "langInv isGoSource isGoTest vs (vdir v) (goPkg (baseDir v old))"
    and p: "langInv isPythonSource isPythonTest vs (vdir v) (pythonPkg (baseDir v old))"
    and r: "langInv isRustSource (\<lambda>f. False) vs (vdir v) (rustPkg (baseDir v old))"
    by (simp_all add: countInv_def)
  have "targets (dirAfter s v old) = manifestTargets s (vs @ [v]) (vdir v)"
    by (simp add: dirAfter_fields manifestTargets_snoc t split: sum.split)
  moreover have "langInv isGoSource isGoTest (vs @ [v]) (vdir v) (goPkg (dirAfter s v old))"
    unfolding dirAfter_fields using g
    by (rule langInv_step) (auto simp: isGoSource_def isGoTest_def)
  moreover have "langInv isPythonSource isPythonTest (vs @ [v]) (vdir v)
                   (pythonPkg (dirAfter s v old))"
    unfolding dirAfter_fields using p
    by (rule langInv_step) (auto simp: isPythonSource_def isPythonTest_def)
  moreover have "langInv isRustSource (\<lambda>f. False) (vs @ [v]) (vdir v) (rustPkg (dirAfter s v old))"
    unfolding dirAfter_fields using r
    by (rule langInv_step) (auto simp: isRustSource_def)
  ultimately show ?thesis
    by (simp add: countInv_def)
qed

lemma walk_countInv:
  "case map_of (dirMap (fold (visitV s) vs \<lparr>dirMap = [], result = r\<rparr>)) k of
     None \<Rightarrow> \<forall>v\<in>set vs. vdir v \<noteq> k
   | Some dp \<Rightarrow> countInv s vs k dp"
proof (rule dir_invariant)
  fix vs :: "visit list" and v :: visit
  assume "\<forall>w\<in>set vs. vdir w \<noteq> vdir v"
  then have "countInv s vs (vdir v) (baseDir v None)"
    by (simp add: countInv_def baseDir_simps manifestTargets_none langInv_fresh)
  then show "countInv s (vs @ [v]) (vdir v) (dirAfter s v None)"
    by (rule countInv_dirAfter)
next
  fix vs :: "visit list" and v :: visit and dp
  assume "countInv s vs (vdir v) dp"
  then have "countInv s vs (vdir v) (baseDir v (Some dp))"
    by (simp add: baseDir_simps)
  then show "countInv s (vs @ [v]) (vdir v) (dirAfter s v (Some dp))"
    by (rule countInv_dirAfter)
next
  fix vs :: "visit list" and v :: visit and k dp
  assume "countInv s vs k dp" and "k \<noteq> vdir v"
  then show "countInv s (vs @ [v]) k dp"
    by (auto simp: countInv_def manifestTargets_snoc intro: langInv_keep)
qed

section \<open>Totals of the walk\<close>

lemma check_snd:
  "snd (checkGo d r f x) =
     (if hasSuffix f ''.go''
      then (if hasSuffix f ''_test.go'' then (snd x)\<lparr>TotalGoTests := TotalGoTests (snd x) + 1\<rparr>
            else (snd x)\<lparr>TotalGoFiles := TotalGoFiles (snd x) + 1\<rparr>)
      else snd x)"
  "snd (checkPython d r f x) =
     (if hasSuffix f ''.py''
      then (if isPyTest f then (snd x)\<lparr>TotalPythonTests := TotalPythonTests (snd x) + 1\<rparr>
            else (snd x)\<lparr>TotalPythonFiles := TotalPythonFiles (snd x) + 1\<rparr>)
      else snd x)"
  "snd (checkRust d r f x) =
     (if hasSuffix f ''.rs'' then (snd x)\<lparr>TotalRustFiles := TotalRustFiles (snd x) + 1\<rparr>
      else snd x)"
  by (cases x; simp add: checkGo_def checkPython_def checkRust_def Let_def isPyTest_def)+

lemma result_visitV:
  "TotalBUILDs (result (visitV s v st)) =
     TotalBUILDs (result st) + (if isManifest (vname v) then 1 else 0)"
  "TotalGoFiles (result (visitV s v st)) =
     TotalGoFiles (result st) + (if isGoSource (vname v) then 1 else 0)"
  "TotalRustTests (result (visitV s v st)) = TotalRustTests (result st)"
  "GoPackages (result (visitV s v st)) = GoPackages (result st)"
  "PythonPackages (result (visitV s v st)) = PythonPackages (result st)"
  "RustPackages (result (visitV s v st)) = RustPackages (result st)"
  by (simp_all add: visitV_def visitFile_def Let_def split_beta check_snd checkBuild_snd
      isGoSource_def)

lemma result_walk:
  "TotalBUILDs (result (fold (visitV s) vs st)) =
     TotalBUILDs (result st) + int (length (filter (\<lambda>v. isManifest (vname v)) vs))"
  "TotalGoFiles (result (fold (visitV s) vs st)) =
     TotalGoFiles (result st) + int (length (filter (\<lambda>v. isGoSource (vname v)) vs))"
  "TotalRustTests (result (fold (visitV s) vs st)) = TotalRustTests (result st)"
  "GoPackages (result (fold (visitV s) vs st)) = GoPackages (result st)"
  "PythonPackages (result (fold (visitV s) vs st)) = PythonPackages (result st)"
  "RustPackages (result (fold (visitV s) vs st)) = RustPackages (result st)"
  by (induction vs arbitrary: st; simp add: result_visitV)+

lemma result_visitV_files:
  "TotalGoTests (result (visitV s v st)) =
     TotalGoTests (result st) + (if isGoTest (vname v) then 1 else 0)"
  "TotalPythonFiles (result (visitV s v st)) =
     TotalPythonFiles (result st) + (if isPythonSource (vname v) then 1 else 0)"
  "TotalPythonTests (result (visitV s v st)) =
     TotalPythonTests (result st) + (if isPythonTest (vname v) then 1 else 0)"
  "TotalRustFiles (result (visitV s v st)) =
     TotalRustFiles (result st) + (if isRustSource (vname v) then 1 else 0)"
  by (simp_all add: visitV_def visitFile_def Let_def split_beta check_snd checkBuild_snd
      isGoTest_def isPythonSource_def isPythonTest_def isRustSource_def)

lemma result_walk_files:
  "TotalGoTests (result (fold (visitV s) vs st)) =
     TotalGoTests (result st) + int (length (filter (\<lambda>v. isGoTest (vname v)) vs))"
  "TotalPythonFiles (result (fold (visitV s) vs st)) =
     TotalPythonFiles (result st) + int (length (filter (\<lambda>v. isPythonSource (vname v)) vs))"
  "TotalPythonTests (result (fold (visitV s) vs st)) =
     TotalPythonTests (result st) + int (length (filter (\<lambda>v. isPythonTest (vname v)) vs))"
  "TotalRustFiles (result (fold (visitV s) vs st)) =
     TotalRustFiles (result st) + int (length (filter (\<lambda>v. isRustSource (vname v)) vs))"
  by (induction vs arbitrary: st; simp add: result_visitV_files)+

lemma distinct_walk:
  "distinct (map fst (dirMap st)) \<Longrightarrow> distinct (map fst (dirMap (fold (visitV s) vs st)))"
  by (induction vs arbitrary: st) (simp_all add: dirMap_visitV distinct_update)

section \<open>Properties of the loop over the directory map\<close>

lemma assignGo_fields:
  "GoPackages (assignGo dp r) = GoPackages r @ goOf dp"
  "PythonPackages (assignGo dp r) = PythonPackages r"
  "RustPackages (assignGo dp r) = RustPackages r"
  "TotalBUILDs (assignGo dp r) = TotalBUILDs r"
  "TotalGoFiles (assignGo dp r) = TotalGoFiles r"
  "TotalRustTests (assignGo dp r) = TotalRustTests r"
  by (simp_all add: assignGo_def goOf_def finalGo_def Let_def split: option.split)

lemma assignPython_fields:
  "GoPackages (assignPython dp r) = GoPackages r"
  "PythonPackages (assignPython dp r) = PythonPackages r @ pythonOf dp"
  "RustPackages (assignPython dp r) = RustPackages r"
  "TotalBUILDs (assignPython dp r) = TotalBUILDs r"
  "TotalGoFiles (assignPython dp r) = TotalGoFiles r"
  "TotalRustTests (assignPython dp r) = TotalRustTests r"
  by (simp_all add: assignPython_def pythonOf_def finalPython_def Let_def split: option.split)

lemma assignRust_fields:
  "GoPackages (assignRust dp r) = GoPackages r"
  "PythonPackages (assignRust dp r) = PythonPackages r"
  "RustPackages (assignRust dp r) = RustPackages r @ rustOf dp"
  "TotalBUILDs (assignRust dp r) = TotalBUILDs r"
  "TotalGoFiles (assignRust dp r) = TotalGoFiles r"
  "TotalRustTests (assignRust dp r) = TotalRustTests r + rustTestsOf dp"
  by (simp_all add: assignRust_def rustOf_def finalRust_def rustTestsOf_def Let_def
      split: option.split)

lemmas assign_fields = assignTargets_def assignGo_fields assignPython_fields assignRust_fields

lemma assign_files:
  "TotalGoTests (assignTargets dp r) = TotalGoTests r"
  "TotalPythonFiles (assignTargets dp r) = TotalPythonFiles r"
  "TotalPythonTests (assignTargets dp r) = TotalPythonTests r"
  "TotalRustFiles (assignTargets dp r) = TotalRustFiles r"
  by (simp_all add: assignTargets_def assignGo_def assignPython_def assignRust_def Let_def
      split: option.split)

lemma fold_assign_files:
  "TotalGoTests (fold assignTargets dps r) = TotalGoTests r"
  "TotalPythonFiles (fold assignTargets dps r) = TotalPythonFiles r"
  "TotalPythonTests (fold assignTargets dps r) = TotalPythonTests r"
  "TotalRustFiles (fold assignTargets dps r) = TotalRustFiles r"
  by (induction dps arbitrary: r; simp add: assign_files)+

lemma sortPackages_files:
  "TotalGoTests (sortPackages r) = TotalGoTests r"
  "TotalPythonFiles (sortPackages r) = TotalPythonFiles r"
  "TotalPythonTests (sortPackages r) = TotalPythonTests r"
  "TotalRustFiles (sortPackages r) = TotalRustFiles r"
  by (simp_all add: sortPackages_def)

lemma fold_assign:
  "GoPackages (fold assignTargets dps r) = GoPackages r @ concat (map goOf dps)"
  "PythonPackages (fold assignTargets dps r) = PythonPackages r @ concat (map pythonOf dps)"
  "RustPackages (fold assignTargets dps r) = RustPackages r @ concat (map rustOf dps)"
  "TotalBUILDs (fold assignTargets dps r) = TotalBUILDs r"
  "TotalGoFiles (fold assignTargets dps r) = TotalGoFiles r"
  "TotalRustTests (fold assignTargets dps r) = TotalRustTests r + sum_list (map rustTestsOf dps)"
  by (induction dps arbitrary: r; simp add: assign_fields)+

lemma sortPackages_fields:
  "set (GoPackages (sortPackages r)) = set (GoPackages r)"
  "set (PythonPackages (sortPackages r)) = set (PythonPackages r)"
  "set (RustPackages (sortPackages r)) = set (RustPackages r)"
  "mset (RustPackages (sortPackages r)) = mset (RustPackages r)"
  "TotalBUILDs (sortPackages r) = TotalBUILDs r"
  "TotalGoFiles (sortPackages r) = TotalGoFiles r"
  "TotalRustTests (sortPackages r) = TotalRustTests r"
  "(GoPackages (sortPackages r) = []) = (GoPackages r = [])"
  by (simp_all add: sortPackages_def set_sortSlice mset_sortSlice)
     (metis mset_sortSlice mset_zero_iff)

lemma Scan_in_order: "Scan s tree (scanInOrder s tree)"
  unfolding scanInOrder_def by (rule scan) (simp add: rangeOrder_def)

lemma Scan_outcome:
  assumes "Scan s tree res"
  obtains dps where "mset dps = mset (map snd (dirMap (walkRepo s tree)))"
    and "res = sortPackages (fold assignTargets dps (result (walkRepo s tree)))"
  using assms by cases (auto simp: rangeOrder_def)

lemma walkRepo_empty_lists:
  "GoPackages (result (walkRepo s tree)) = []"
  "PythonPackages (result (walkRepo s tree)) = []"
  "RustPackages (result (walkRepo s tree)) = []"
  "TotalRustTests (result (walkRepo s tree)) = 0"
  by (simp_all add: walkRepo_files result_walk emptyResult_def)

lemma dir_entry:
  assumes "dp \<in> set (map snd (dirMap (walkRepo s tree)))"
  shows "buildInv s (repoFiles s tree) (path dp) dp"
    and "pkgInv (repoFiles s tree) (path dp) dp"
    and "countInv s (repoFiles s tree) (path dp) dp"
proof -
  let ?vs = "repoFiles s tree"
  let ?st = "fold (visitV s) ?vs \<lparr>dirMap = [], result = emptyResult (repoPath s)\<rparr>"
  from assms obtain k where "(k, dp) \<in> set (dirMap ?st)"
    by (auto simp: walkRepo_files)
  moreover have "distinct (map fst (dirMap ?st))"
    by (rule distinct_walk) simp
  ultimately have m: "map_of (dirMap ?st) k = Some dp"
    by simp
  from walk_buildInv [where s = s and vs = "?vs" and r = "emptyResult (repoPath s)" and k = k] m
  have b: "buildInv s ?vs k dp"
    by simp
  then have k: "path dp = k"
    by (simp add: buildInv_def)
  from b k show "buildInv s ?vs (path dp) dp"
    by simp
  from walk_pkgInv [where s = s and vs = "?vs" and r = "emptyResult (repoPath s)" and k = k] m k
  show "pkgInv ?vs (path dp) dp"
    by simp
  from walk_countInv [where s = s and vs = "?vs" and r = "emptyResult (repoPath s)" and k = k] m k
  show "countInv s ?vs (path dp) dp"
    by simp
qed

lemma dir_exists:
  assumes "v \<in> set (repoFiles s tree)"
  shows "\<exists>dp\<in>set (map snd (dirMap (walkRepo s tree))). path dp = vdir v"
proof -
  let ?vs = "repoFiles s tree"
  let ?st = "fold (visitV s) ?vs \<lparr>dirMap = [], result = emptyResult (repoPath s)\<rparr>"
  from walk_buildInv [where s = s and vs = "?vs" and r = "emptyResult (repoPath s)" and k = "vdir v"] assms
  obtain dp where m: "map_of (dirMap ?st) (vdir v) = Some dp" and "buildInv s ?vs (vdir v) dp"
    by (cases "map_of (dirMap ?st) (vdir v)") auto
  then have "path dp = vdir v"
    by (simp add: buildInv_def)
  moreover from m have "(vdir v, dp) \<in> set (dirMap ?st)"
    by (rule map_of_SomeD)
  then have "dp \<in> set (map snd (dirMap (walkRepo s tree)))"
    by (force simp: walkRepo_files)
  ultimately show ?thesis
    by blast
qed

lemma Scan_packages:
  assumes "Scan s tree res"
  shows "set (GoPackages res) = (\<Union>dp\<in>set (map snd (dirMap (walkRepo s tree))). set (goOf dp))"
    and "set (PythonPackages res) = (\<Union>dp\<in>set (map snd (dirMap (walkRepo s tree))). set (pythonOf dp))"
    and "set (RustPackages res) = (\<Union>dp\<in>set (map snd (dirMap (walkRepo s tree))). set (rustOf dp))"
proof -
  from assms obtain dps where m: "mset dps = mset (map snd (dirMap (walkRepo s tree)))"
    and res: "res = sortPackages (fold assignTargets dps (result (walkRepo s tree)))"
    by (rule Scan_outcome)
  from m have "set dps = set (map snd (dirMap (walkRepo s tree)))"
    by (rule mset_eq_setD)
  then show "set (GoPackages res) = (\<Union>dp\<in>set (map snd (dirMap (walkRepo s tree))). set (goOf dp))"
    and "set (PythonPackages res) = (\<Union>dp\<in>set (map snd (dirMap (walkRepo s tree))). set (pythonOf dp))"
    and "set (RustPackages res) = (\<Union>dp\<in>set (map snd (dirMap (walkRepo s tree))). set (rustOf dp))"
    by (simp_all add: res sortPackages_fields fold_assign walkRepo_empty_lists)
qed

lemma final_fields:
  "Path (finalGo dp p) = Path p" "RelPath (finalGo dp p) = RelPath p"
  "HasBuildFile (finalGo dp p) = hasBuild dp"
  "Path (finalPython dp p) = Path p" "RelPath (finalPython dp p) = RelPath p"
  "HasBuildFile (finalPython dp p) = hasBuild dp"
  "Path (finalRust dp p) = Path p" "RelPath (finalRust dp p) = RelPath p"
  "HasBuildFile (finalRust dp p) = hasBuild dp"
  "SourceFileCount (finalGo dp p) = SourceFileCount p"
  by (simp_all add: finalGo_def finalPython_def finalRust_def split: option.split)

lemma final_counts:
  "TestFileCount (finalGo dp p) = TestFileCount p"
  "HasTestFiles (finalGo dp p) = HasTestFiles p"
  "SourceFileCount (finalPython dp p) = SourceFileCount p"
  "TestFileCount (finalPython dp p) = TestFileCount p"
  "HasTestFiles (finalPython dp p) = HasTestFiles p"
  "SourceFileCount (finalRust dp p) = SourceFileCount p"
  by (simp_all add: finalGo_def finalPython_def finalRust_def split: option.split)

lemma final_untargeted:
  "targets dp = None \<Longrightarrow> TestTargetCount (finalGo dp p) = TestTargetCount p
     \<and> LibraryTargets (finalGo dp p) = LibraryTargets p \<and> BinaryTargets (finalGo dp p) = BinaryTargets p"
  "targets dp = None \<Longrightarrow> TestTargetCount (finalPython dp p) = TestTargetCount p
     \<and> LibraryTargets (finalPython dp p) = LibraryTargets p \<and> BinaryTargets (finalPython dp p) = BinaryTargets p"
  "targets dp = None \<Longrightarrow> TestTargetCount (finalRust dp p) = TestTargetCount p
     \<and> LibraryTargets (finalRust dp p) = LibraryTargets p \<and> BinaryTargets (finalRust dp p) = BinaryTargets p"
  by (simp_all add: finalGo_def finalPython_def finalRust_def)

lemma of_mem:
  "P \<in> set (goOf dp) \<Longrightarrow> \<exists>p. goPkg dp = Some p \<and> P = finalGo dp p"
  "P \<in> set (pythonOf dp) \<Longrightarrow> \<exists>p. pythonPkg dp = Some p \<and> P = finalPython dp p"
  "P \<in> set (rustOf dp) \<Longrightarrow> \<exists>p. rustPkg dp = Some p \<and> P = finalRust dp p"
  by (cases "goPkg dp"; cases "pythonPkg dp"; cases "rustPkg dp";
      simp add: goOf_def pythonOf_def rustOf_def)+

lemma package_origin:
  assumes "Scan s tree res" and "P \<in> allPackages res"
  obtains dp p where "dp \<in> set (map snd (dirMap (walkRepo s tree)))"
    and "Path P = path dp" and "RelPath P = RelPath p" and "HasBuildFile P = hasBuild dp"
    and "freshPkg (repoFiles s tree) (path dp) (Some p)"
    and "targets dp = None \<longrightarrow> TestTargetCount P = 0 \<and> LibraryTargets P = 0 \<and> BinaryTargets P = 0"
proof -
  note sets = Scan_packages [OF assms(1)]
  from assms(2) consider "P \<in> set (GoPackages res)" | "P \<in> set (PythonPackages res)"
    | "P \<in> set (RustPackages res)"
    by (auto simp: allPackages_def)
  then show thesis
  proof cases
    case 1
    with sets(1) obtain dp where dp: "dp \<in> set (map snd (dirMap (walkRepo s tree)))"
      and "P \<in> set (goOf dp)"
      by blast
    with of_mem(1) obtain p where p: "goPkg dp = Some p" and P: "P = finalGo dp p"
      by blast
    from dir_entry(2) [OF dp] p have f: "freshPkg (repoFiles s tree) (path dp) (Some p)"
      by (simp add: pkgInv_def)
    show thesis
      using dp f final_untargeted(1) [of dp p] f
      by (intro that [of dp p]) (auto simp: P final_fields freshPkg_def)
  next
    case 2
    with sets(2) obtain dp where dp: "dp \<in> set (map snd (dirMap (walkRepo s tree)))"
      and "P \<in> set (pythonOf dp)"
      by blast
    with of_mem(2) obtain p where p: "pythonPkg dp = Some p" and P: "P = finalPython dp p"
      by blast
    from dir_entry(2) [OF dp] p have f: "freshPkg (repoFiles s tree) (path dp) (Some p)"
      by (simp add: pkgInv_def)
    show thesis
      using dp f final_untargeted(2) [of dp p] f
      by (intro that [of dp p]) (auto simp: P final_fields freshPkg_def)
  next
    case 3
    with sets(3) obtain dp where dp: "dp \<in> set (map snd (dirMap (walkRepo s tree)))"
      and "P \<in> set (rustOf dp)"
      by blast
    with of_mem(3) obtain p where p: "rustPkg dp = Some p" and P: "P = finalRust dp p"
      by blast
    from dir_entry(2) [OF dp] p have f: "freshPkg (repoFiles s tree) (path dp) (Some p)"
      by (simp add: pkgInv_def)
    show thesis
      using dp f final_untargeted(3) [of dp p] f
      by (intro that [of dp p]) (auto simp: P final_fields freshPkg_def)
  qed
qed

lemma package_build_flag:
  assumes "Scan s tree res" and "P \<in> allPackages res"
  shows "HasBuildFile P \<longleftrightarrow>
           (\<exists>v\<in>set (repoFiles s tree). vdir v = Path P \<and> isManifest (vname v))"
proof -
  from assms obtain dp p where dp: "dp \<in> set (map snd (dirMap (walkRepo s tree)))"
    and P: "Path P = path dp" "HasBuildFile P = hasBuild dp"
    by (rule package_origin)
  from dir_entry(1) [OF dp] P show ?thesis
    by (simp add: buildInv_def)
qed

text \<open>
  Claim C2. For every package \<open>P\<close> of a scan, in any of the three lists, the flag
  \<open>HasBuildFile\<close> holds if and only if the walk met, directly in the directory at the path
  of \<open>P\<close>, a file named \<open>BUILD\<close> or \<open>BUILD.bazel\<close>. This does not depend on parsing: when
  every such file of the directory fails to parse, the three target counts of \<open>P\<close> are 0
  (and the flag is true if there is such a file).
\<close>

theorem has_build_file_iff:
  assumes "Scan s tree res" and "P \<in> allPackages res"
  shows "(HasBuildFile P \<longleftrightarrow>
            (\<exists>v\<in>set (repoFiles s tree). vdir v = Path P \<and> isManifest (vname v)))
         \<and> ((\<forall>v\<in>set (repoFiles s tree).
                vdir v = Path P \<and> isManifest (vname v) \<longrightarrow>
                  (\<exists>e. parseBuildFile s (vcontent v) = Inl e)) \<longrightarrow>
              TestTargetCount P = 0 \<and> LibraryTargets P = 0 \<and> BinaryTargets P = 0)"
proof (rule conjI)
  show "HasBuildFile P \<longleftrightarrow>
          (\<exists>v\<in>set (repoFiles s tree). vdir v = Path P \<and> isManifest (vname v))"
    using assms by (rule package_build_flag)
next
  from assms obtain dp p where dp: "dp \<in> set (map snd (dirMap (walkRepo s tree)))"
    and P: "Path P = path dp"
    and zero: "targets dp = None \<longrightarrow>
                 TestTargetCount P = 0 \<and> LibraryTargets P = 0 \<and> BinaryTargets P = 0"
    by (rule package_origin)
  from dir_entry(1) [OF dp] have b: "buildInv s (repoFiles s tree) (path dp) dp" .
  show "(\<forall>v\<in>set (repoFiles s tree).
           vdir v = Path P \<and> isManifest (vname v) \<longrightarrow>
             (\<exists>e. parseBuildFile s (vcontent v) = Inl e)) \<longrightarrow>
        TestTargetCount P = 0 \<and> LibraryTargets P = 0 \<and> BinaryTargets P = 0"
  proof
    assume fails: "\<forall>v\<in>set (repoFiles s tree).
           vdir v = Path P \<and> isManifest (vname v) \<longrightarrow>
             (\<exists>e. parseBuildFile s (vcontent v) = Inl e)"
    have "targets dp = None"
    proof (cases "targets dp")
      case None
      then show ?thesis .
    next
      case (Some t)
      with b obtain v where "v \<in> set (repoFiles s tree)" "vdir v = path dp"
        "isManifest (vname v)" "parseBuildFile s (vcontent v) = Inr t"
        by (auto simp: buildInv_def)
      with fails P show ?thesis
        by auto
    qed
    with zero show "TestTargetCount P = 0 \<and> LibraryTargets P = 0 \<and> BinaryTargets P = 0"
      by simp
  qed
qed

section \<open>Rust packages\<close>

lemma parse_nonneg: "parseBuildFile s c = Inr t \<Longrightarrow> 0 \<le> rustTests t"
  by (auto simp: parseBuildFile_def Let_def split: option.splits if_splits)

lemma rustOf_sum:
  assumes "pkgInv vs k dp"
  shows "sum_list (map TestFileCount (rustOf dp)) = rustTestsOf dp"
  using assms
  by (cases "rustPkg dp"; cases "targets dp")
     (simp_all add: rustOf_def rustTestsOf_def finalRust_def pkgInv_def)

lemma sum_concat_rust:
  "\<forall>dp\<in>set dps. sum_list (map TestFileCount (rustOf dp)) = rustTestsOf dp \<Longrightarrow>
   sum_list (map TestFileCount (concat (map rustOf dps))) = sum_list (map rustTestsOf dps)"
  by (induction dps) simp_all

lemma rust_package_counts:
  assumes "Scan s tree res" and "P \<in> set (RustPackages res)"
  shows "case manifestTargets s (repoFiles s tree) (Path P) of
           None \<Rightarrow> TestTargetCount P = 0 \<and> \<not> HasTestFiles P \<and> TestFileCount P = 0
         | Some t \<Rightarrow>
             TestTargetCount P = rustTests t
             \<and> (if 0 < rustTests t then HasTestFiles P \<and> TestFileCount P = rustTests t
                else \<not> HasTestFiles P \<and> TestFileCount P = 0)"
proof -
  from assms Scan_packages(3) [OF assms(1)] obtain dp
    where dp: "dp \<in> set (map snd (dirMap (walkRepo s tree)))" and "P \<in> set (rustOf dp)"
    by blast
  with of_mem(3) obtain p where p: "rustPkg dp = Some p" and P: "P = finalRust dp p"
    by blast
  from dir_entry(2) [OF dp] p have fresh: "\<not> HasTestFiles p" "TestFileCount p = 0"
    "TestTargetCount p = 0" "Path p = path dp"
    by (simp_all add: pkgInv_def freshPkg_def)
  from dir_entry(3) [OF dp]
  have t: "manifestTargets s (repoFiles s tree) (Path P) = targets dp"
    by (simp add: countInv_def P final_fields fresh(4))
  show ?thesis
    unfolding t using fresh by (cases "targets dp") (simp_all add: P finalRust_def)
qed

lemma rust_package_exists:
  assumes "Scan s tree res" and "v \<in> set (repoFiles s tree)" and "hasSuffix (vname v) ''.rs''"
  shows "\<exists>P\<in>set (RustPackages res). Path P = vdir v
           \<and> SourceFileCount P = filesWhere isRustSource (repoFiles s tree) (vdir v)"
proof -
  from dir_exists [OF assms(2)] obtain dp
    where dp: "dp \<in> set (map snd (dirMap (walkRepo s tree)))" and k: "path dp = vdir v"
    by blast
  from dir_entry(3) [OF dp]
  have inv: "langInv isRustSource (\<lambda>f. False) (repoFiles s tree) (vdir v) (rustPkg dp)"
    by (simp add: countInv_def k)
  from filesWhere_pos [OF assms(2), of isRustSource] assms(3)
  have pos: "0 < filesWhere isRustSource (repoFiles s tree) (vdir v)"
    by (simp add: isRustSource_def)
  with inv obtain p where p: "rustPkg dp = Some p"
    and n: "SourceFileCount p = filesWhere isRustSource (repoFiles s tree) (vdir v)"
    by (cases "rustPkg dp") (auto simp: langInv_def)
  from dir_entry(2) [OF dp] p have "Path p = path dp"
    by (simp add: pkgInv_def freshPkg_def)
  moreover from dp p have "finalRust dp p \<in> set (RustPackages res)"
    unfolding Scan_packages(3) [OF assms(1)] by (force simp: rustOf_def)
  ultimately show ?thesis
    using n k by (auto simp: final_fields final_counts intro!: bexI [of _ "finalRust dp p"])
qed

text \<open>
  Claim C5. Let \<open>P\<close> be a Rust package of a scan and take what the walk has kept of the
  manifests of its directory (\<open>manifestTargets\<close>: the counts of the last manifest file of
  the directory that could be read). If there are such counts, with the \<open>rust_test\<close> count
  \<open>n\<close>, the test-target count of \<open>P\<close> is \<open>n\<close>, and when \<open>n\<close> is above 0 then \<open>P\<close> has test
  files and its test-file count is \<open>n\<close>; when \<open>n\<close> is 0, or when no manifest of the
  directory could be read, \<open>P\<close> has no test files and its test-file count is 0. In
  particular, when the directory has a manifest file and each of its manifest files is
  read with the counts \<open>t\<close>, the counts of \<open>P\<close> are those of \<open>t\<close>, and when none of them
  can be read they are 0. Every directory in which the walk met a file with the suffix
  \<open>.rs\<close> has a Rust package. The global Rust test-file total is the sum of the test-file
  counts of the Rust packages, so every package adds the \<open>rust_test\<close> count of its
  manifest to it.
\<close>

theorem rust_tests_from_targets:
  assumes "Scan s tree res"
  shows "(\<forall>P\<in>set (RustPackages res).
            (case manifestTargets s (repoFiles s tree) (Path P) of
               None \<Rightarrow> TestTargetCount P = 0 \<and> \<not> HasTestFiles P \<and> TestFileCount P = 0
             | Some t \<Rightarrow>
                 TestTargetCount P = rustTests t
                 \<and> (if 0 < rustTests t then HasTestFiles P \<and> TestFileCount P = rustTests t
                    else \<not> HasTestFiles P \<and> TestFileCount P = 0))
            \<and> ((\<exists>v\<in>set (repoFiles s tree). vdir v = Path P \<and> isManifest (vname v))
                 \<and> (\<forall>v\<in>set (repoFiles s tree). vdir v = Path P \<and> isManifest (vname v) \<longrightarrow>
                        parseBuildFile s (vcontent v) = Inr t) \<longrightarrow>
                TestTargetCount P = rustTests t
                \<and> (if 0 < rustTests t then HasTestFiles P \<and> TestFileCount P = rustTests t
                   else \<not> HasTestFiles P \<and> TestFileCount P = 0))
            \<and> ((\<forall>v\<in>set (repoFiles s tree). vdir v = Path P \<and> isManifest (vname v) \<longrightarrow>
                    (\<exists>e. parseBuildFile s (vcontent v) = Inl e)) \<longrightarrow>
                TestTargetCount P = 0 \<and> \<not> HasTestFiles P \<and> TestFileCount P = 0))
         \<and> (\<forall>v\<in>set (repoFiles s tree).
              hasSuffix (vname v) ''.rs'' \<longrightarrow> (\<exists>P\<in>set (RustPackages res). Path P = vdir v))
         \<and> TotalRustTests res = sum_list (map TestFileCount (RustPackages res))
         \<and> TotalRustTests res
             = sum_list (map (\<lambda>P. case manifestTargets s (repoFiles s tree) (Path P) of
                                     None \<Rightarrow> 0
                                   | Some t \<Rightarrow> if 0 < rustTests t then rustTests t else 0)
                           (RustPackages res))"
proof (intro conjI)
  show "\<forall>P\<in>set (RustPackages res).
            (case manifestTargets s (repoFiles s tree) (Path P) of
               None \<Rightarrow> TestTargetCount P = 0 \<and> \<not> HasTestFiles P \<and> TestFileCount P = 0
             | Some t \<Rightarrow>
                 TestTargetCount P = rustTests t
                 \<and> (if 0 < rustTests t then HasTestFiles P \<and> TestFileCount P = rustTests t
                    else \<not> HasTestFiles P \<and> TestFileCount P = 0))
            \<and> ((\<exists>v\<in>set (repoFiles s tree). vdir v = Path P \<and> isManifest (vname v))
                 \<and> (\<forall>v\<in>set (repoFiles s tree). vdir v = Path P \<and> isManifest (vname v) \<longrightarrow>
                        parseBuildFile s (vcontent v) = Inr t) \<longrightarrow>
                TestTargetCount P = rustTests t
                \<and> (if 0 < rustTests t then HasTestFiles P \<and> TestFileCount P = rustTests t
                   else \<not> HasTestFiles P \<and> TestFileCount P = 0))
            \<and> ((\<forall>v\<in>set (repoFiles s tree). vdir v = Path P \<and> isManifest (vname v) \<longrightarrow>
                    (\<exists>e. parseBuildFile s (vcontent v) = Inl e)) \<longrightarrow>
                TestTargetCount P = 0 \<and> \<not> HasTestFiles P \<and> TestFileCount P = 0)"
  proof (rule ballI, intro conjI impI)
    fix P
    assume P: "P \<in> set (RustPackages res)"
    note kept = rust_package_counts [OF assms P]
    show "case manifestTargets s (repoFiles s tree) (Path P) of
               None \<Rightarrow> TestTargetCount P = 0 \<and> \<not> HasTestFiles P \<and> TestFileCount P = 0
             | Some t \<Rightarrow>
                 TestTargetCount P = rustTests t
                 \<and> (if 0 < rustTests t then HasTestFiles P \<and> TestFileCount P = rustTests t
                    else \<not> HasTestFiles P \<and> TestFileCount P = 0)"
      by (rule kept)
    {
      assume "(\<exists>v\<in>set (repoFiles s tree). vdir v = Path P \<and> isManifest (vname v))
                 \<and> (\<forall>v\<in>set (repoFiles s tree). vdir v = Path P \<and> isManifest (vname v) \<longrightarrow>
                        parseBuildFile s (vcontent v) = Inr t)"
      then have "manifestTargets s (repoFiles s tree) (Path P) = Some t"
        by (simp add: manifestTargets_uniform [where t = t])
      with kept show "TestTargetCount P = rustTests t"
        and "if 0 < rustTests t then HasTestFiles P \<and> TestFileCount P = rustTests t
             else \<not> HasTestFiles P \<and> TestFileCount P = 0"
        by simp_all
    }
    {
      assume "\<forall>v\<in>set (repoFiles s tree). vdir v = Path P \<and> isManifest (vname v) \<longrightarrow>
                    (\<exists>e. parseBuildFile s (vcontent v) = Inl e)"
      then have "manifestTargets s (repoFiles s tree) (Path P) = None"
        by (rule manifestTargets_failing)
      with kept show "TestTargetCount P = 0" and "\<not> HasTestFiles P" and "TestFileCount P = 0"
        by simp_all
    }
  qed
  show "\<forall>v\<in>set (repoFiles s tree).
          hasSuffix (vname v) ''.rs'' \<longrightarrow> (\<exists>P\<in>set (RustPackages res). Path P = vdir v)"
    using rust_package_exists [OF assms] by blast
  from assms obtain dps where m: "mset dps = mset (map snd (dirMap (walkRepo s tree)))"
    and res: "res = sortPackages (fold assignTargets dps (result (walkRepo s tree)))"
    by (rule Scan_outcome)
  from m have "set dps = set (map snd (dirMap (walkRepo s tree)))"
    by (rule mset_eq_setD)
  with dir_entry(2) have "\<forall>dp\<in>set dps. sum_list (map TestFileCount (rustOf dp)) = rustTestsOf dp"
    using rustOf_sum by blast
  then have sum: "sum_list (map TestFileCount (concat (map rustOf dps)))
                    = sum_list (map rustTestsOf dps)"
    by (rule sum_concat_rust)
  have "mset (RustPackages res) = mset (concat (map rustOf dps))"
    by (simp add: res sortPackages_fields fold_assign walkRepo_empty_lists)
  then have "mset (map TestFileCount (RustPackages res))
               = mset (map TestFileCount (concat (map rustOf dps)))"
    by (metis mset_map)
  then have "sum_list (map TestFileCount (RustPackages res))
               = sum_list (map TestFileCount (concat (map rustOf dps)))"
    by (metis sum_mset_sum_list)
  with sum show total: "TotalRustTests res = sum_list (map TestFileCount (RustPackages res))"
    by (simp add: res sortPackages_fields fold_assign walkRepo_empty_lists)
  have "map TestFileCount (RustPackages res)
          = map (\<lambda>P. case manifestTargets s (repoFiles s tree) (Path P) of
                        None \<Rightarrow> 0
                      | Some t \<Rightarrow> if 0 < rustTests t then rustTests t else 0)
              (RustPackages res)"
  proof (rule map_cong [OF refl])
    fix P
    assume "P \<in> set (RustPackages res)"
    from rust_package_counts [OF assms this]
    show "TestFileCount P = (case manifestTargets s (repoFiles s tree) (Path P) of
                        None \<Rightarrow> 0
                      | Some t \<Rightarrow> if 0 < rustTests t then rustTests t else 0)"
      by (simp split: option.splits if_splits)
  qed
  with total show "TotalRustTests res
             = sum_list (map (\<lambda>P. case manifestTargets s (repoFiles s tree) (Path P) of
                                     None \<Rightarrow> 0
                                   | Some t \<Rightarrow> if 0 < rustTests t then rustTests t else 0)
                           (RustPackages res))"
    by simp
qed

lemma Scan_totals:
  assumes "Scan s tree res"
  shows "TotalBUILDs res = int (length (filter (\<lambda>v. isManifest (vname v)) (repoFiles s tree)))"
    and "TotalGoFiles res = int (length (filter (\<lambda>v. isGoSource (vname v)) (repoFiles s tree)))"
proof -
  from assms obtain dps
    where res: "res = sortPackages (fold assignTargets dps (result (walkRepo s tree)))"
    by (rule Scan_outcome)
  show "TotalBUILDs res = int (length (filter (\<lambda>v. isManifest (vname v)) (repoFiles s tree)))"
    and "TotalGoFiles res = int (length (filter (\<lambda>v. isGoSource (vname v)) (repoFiles s tree)))"
    by (simp_all add: res sortPackages_fields fold_assign walkRepo_files result_walk
        emptyResult_def)
qed

lemma Scan_file_totals:
  assumes "Scan s tree res"
  shows "TotalGoTests res = int (length (filter (\<lambda>v. isGoTest (vname v)) (repoFiles s tree)))"
    and "TotalPythonFiles res
           = int (length (filter (\<lambda>v. isPythonSource (vname v)) (repoFiles s tree)))"
    and "TotalPythonTests res
           = int (length (filter (\<lambda>v. isPythonTest (vname v)) (repoFiles s tree)))"
    and "TotalRustFiles res
           = int (length (filter (\<lambda>v. isRustSource (vname v)) (repoFiles s tree)))"
proof -
  from assms obtain dps
    where res: "res = sortPackages (fold assignTargets dps (result (walkRepo s tree)))"
    by (rule Scan_outcome)
  show "TotalGoTests res = int (length (filter (\<lambda>v. isGoTest (vname v)) (repoFiles s tree)))"
    and "TotalPythonFiles res
           = int (length (filter (\<lambda>v. isPythonSource (vname v)) (repoFiles s tree)))"
    and "TotalPythonTests res
           = int (length (filter (\<lambda>v. isPythonTest (vname v)) (repoFiles s tree)))"
    and "TotalRustFiles res
           = int (length (filter (\<lambda>v. isRustSource (vname v)) (repoFiles s tree)))"
    by (simp_all add: res sortPackages_files fold_assign_files walkRepo_files result_walk_files
        emptyResult_def)
qed

lemma go_package_exists:
  assumes "Scan s tree res" and "v \<in> set (repoFiles s tree)" and "hasSuffix (vname v) ''.go''"
  shows "\<exists>P\<in>set (GoPackages res). Path P = vdir v
           \<and> SourceFileCount P = filesWhere isGoSource (repoFiles s tree) (vdir v)
           \<and> TestFileCount P = filesWhere isGoTest (repoFiles s tree) (vdir v)
           \<and> (HasTestFiles P \<longleftrightarrow> 0 < filesWhere isGoTest (repoFiles s tree) (vdir v))"
proof -
  from dir_exists [OF assms(2)] obtain dp
    where dp: "dp \<in> set (map snd (dirMap (walkRepo s tree)))" and k: "path dp = vdir v"
    by blast
  from dir_entry(3) [OF dp]
  have inv: "langInv isGoSource isGoTest (repoFiles s tree) (vdir v) (goPkg dp)"
    by (simp add: countInv_def k)
  from filesWhere_pos [OF assms(2), of isGoSource] filesWhere_pos [OF assms(2), of isGoTest]
    assms(3)
  have "0 < filesWhere isGoSource (repoFiles s tree) (vdir v)
        \<or> 0 < filesWhere isGoTest (repoFiles s tree) (vdir v)"
    by (auto simp: isGoSource_def isGoTest_def)
  with inv obtain p where p: "goPkg dp = Some p"
    and n: "SourceFileCount p = filesWhere isGoSource (repoFiles s tree) (vdir v)"
      "TestFileCount p = filesWhere isGoTest (repoFiles s tree) (vdir v)"
      "HasTestFiles p \<longleftrightarrow> 0 < filesWhere isGoTest (repoFiles s tree) (vdir v)"
    by (cases "goPkg dp") (auto simp: langInv_def)
  from dir_entry(2) [OF dp] p have "Path p = path dp"
    by (simp add: pkgInv_def freshPkg_def)
  moreover from dp p have "finalGo dp p \<in> set (GoPackages res)"
    unfolding Scan_packages(1) [OF assms(1)] by (force simp: goOf_def)
  ultimately show ?thesis
    using n k by (auto simp: final_fields final_counts intro!: bexI [of _ "finalGo dp p"])
qed

lemma python_package_exists:
  assumes "Scan s tree res" and "v \<in> set (repoFiles s tree)" and "hasSuffix (vname v) ''.py''"
  shows "\<exists>P\<in>set (PythonPackages res). Path P = vdir v
           \<and> SourceFileCount P = filesWhere isPythonSource (repoFiles s tree) (vdir v)
           \<and> TestFileCount P = filesWhere isPythonTest (repoFiles s tree) (vdir v)
           \<and> (HasTestFiles P \<longleftrightarrow> 0 < filesWhere isPythonTest (repoFiles s tree) (vdir v))"
proof -
  from dir_exists [OF assms(2)] obtain dp
    where dp: "dp \<in> set (map snd (dirMap (walkRepo s tree)))" and k: "path dp = vdir v"
    by blast
  from dir_entry(3) [OF dp]
  have inv: "langInv isPythonSource isPythonTest (repoFiles s tree) (vdir v) (pythonPkg dp)"
    by (simp add: countInv_def k)
  from filesWhere_pos [OF assms(2), of isPythonSource]
    filesWhere_pos [OF assms(2), of isPythonTest] assms(3)
  have "0 < filesWhere isPythonSource (repoFiles s tree) (vdir v)
        \<or> 0 < filesWhere isPythonTest (repoFiles s tree) (vdir v)"
    by (auto simp: isPythonSource_def isPythonTest_def)
  with inv obtain p where p: "pythonPkg dp = Some p"
    and n: "SourceFileCount p = filesWhere isPythonSource (repoFiles s tree) (vdir v)"
      "TestFileCount p = filesWhere isPythonTest (repoFiles s tree) (vdir v)"
      "HasTestFiles p \<longleftrightarrow> 0 < filesWhere isPythonTest (repoFiles s tree) (vdir v)"
    by (cases "pythonPkg dp") (auto simp: langInv_def)
  from dir_entry(2) [OF dp] p have "Path p = path dp"
    by (simp add: pkgInv_def freshPkg_def)
  moreover from dp p have "finalPython dp p \<in> set (PythonPackages res)"
    unfolding Scan_packages(2) [OF assms(1)] by (force simp: pythonOf_def)
  ultimately show ?thesis
    using n k by (auto simp: final_fields final_counts intro!: bexI [of _ "finalPython dp p"])
qed

text \<open>
  Claim C9. The test on a leading dot is made on directories only. Every regular file
  among the entries of a directory that the walk enters is given to the callback,
  whatever its name, while a directory whose name starts with \<open>.\<close> is left out with
  all that it contains. Every file \<open>v\<close> that the walk meets, a name with a leading dot
  included, is classified by its suffix: with \<open>.go\<close> its directory has a Go package, with
  \<open>.py\<close> a Python package and with \<open>.rs\<close> a Rust package, and the source-file and test-file
  counts of that package are the numbers of the source files and of the test files of
  that language met in the directory, \<open>v\<close> among them; the global counts are the
  numbers of such files met in the walk. So a file \<open>.helper.go\<close>, a Go source file by
  its name, is counted as one and is enough for its directory to have a Go package.
\<close>

theorem dot_file_is_classified:
  assumes "Scan s tree res"
  shows "(\<forall>v\<in>set (repoFiles s tree).
            (hasSuffix (vname v) ''.go'' \<longrightarrow>
               (\<exists>P\<in>set (GoPackages res). Path P = vdir v
                  \<and> SourceFileCount P = filesWhere isGoSource (repoFiles s tree) (vdir v)
                  \<and> TestFileCount P = filesWhere isGoTest (repoFiles s tree) (vdir v)
                  \<and> (HasTestFiles P \<longleftrightarrow> 0 < TestFileCount P)
                  \<and> 0 < (if hasSuffix (vname v) ''_test.go'' then TestFileCount P
                          else SourceFileCount P)))
            \<and> (hasSuffix (vname v) ''.py'' \<longrightarrow>
               (\<exists>P\<in>set (PythonPackages res). Path P = vdir v
                  \<and> SourceFileCount P = filesWhere isPythonSource (repoFiles s tree) (vdir v)
                  \<and> TestFileCount P = filesWhere isPythonTest (repoFiles s tree) (vdir v)
                  \<and> (HasTestFiles P \<longleftrightarrow> 0 < TestFileCount P)
                  \<and> 0 < (if isPyTest (vname v) then TestFileCount P else SourceFileCount P)))
            \<and> (hasSuffix (vname v) ''.rs'' \<longrightarrow>
               (\<exists>P\<in>set (RustPackages res). Path P = vdir v
                  \<and> SourceFileCount P = filesWhere isRustSource (repoFiles s tree) (vdir v)
                  \<and> 0 < SourceFileCount P)))
         \<and> TotalGoFiles res
             = int (length (filter (\<lambda>v. isGoSource (vname v)) (repoFiles s tree)))
         \<and> TotalGoTests res
             = int (length (filter (\<lambda>v. isGoTest (vname v)) (repoFiles s tree)))
         \<and> TotalPythonFiles res
             = int (length (filter (\<lambda>v. isPythonSource (vname v)) (repoFiles s tree)))
         \<and> TotalPythonTests res
             = int (length (filter (\<lambda>v. isPythonTest (vname v)) (repoFiles s tree)))
         \<and> TotalRustFiles res
             = int (length (filter (\<lambda>v. isRustSource (vname v)) (repoFiles s tree)))
         \<and> ((name, File c) \<in> set entries \<longrightarrow>
              \<lparr>vdir = dir, vrel = rel, vname = name, vcontent = c\<rparr>
                \<in> set (filesIn s dir rel entries))
         \<and> (hasPrefix name ''.'' \<longrightarrow>
              walk s dir rel name (File c) st = visitFile s dir rel name c st
              \<and> walk s dir rel name (Dir sub) st = st)
         \<and> isGoSource ''.helper.go''"
proof (intro conjI)
  show "\<forall>v\<in>set (repoFiles s tree).
            (hasSuffix (vname v) ''.go'' \<longrightarrow>
               (\<exists>P\<in>set (GoPackages res). Path P = vdir v
                  \<and> SourceFileCount P = filesWhere isGoSource (repoFiles s tree) (vdir v)
                  \<and> TestFileCount P = filesWhere isGoTest (repoFiles s tree) (vdir v)
                  \<and> (HasTestFiles P \<longleftrightarrow> 0 < TestFileCount P)
                  \<and> 0 < (if hasSuffix (vname v) ''_test.go'' then TestFileCount P
                          else SourceFileCount P)))
            \<and> (hasSuffix (vname v) ''.py'' \<longrightarrow>
               (\<exists>P\<in>set (PythonPackages res). Path P = vdir v
                  \<and> SourceFileCount P = filesWhere isPythonSource (repoFiles s tree) (vdir v)
                  \<and> TestFileCount P = filesWhere isPythonTest (repoFiles s tree) (vdir v)
                  \<and> (HasTestFiles P \<longleftrightarrow> 0 < TestFileCount P)
                  \<and> 0 < (if isPyTest (vname v) then TestFileCount P else SourceFileCount P)))
            \<and> (hasSuffix (vname v) ''.rs'' \<longrightarrow>
               (\<exists>P\<in>set (RustPackages res). Path P = vdir v
                  \<and> SourceFileCount P = filesWhere isRustSource (repoFiles s tree) (vdir v)
                  \<and> 0 < SourceFileCount P))"
  proof (rule ballI, intro conjI impI)
    fix v
    assume v: "v \<in> set (repoFiles s tree)"
    {
      assume go: "hasSuffix (vname v) ''.go''"
      from go_package_exists [OF assms v go] obtain P where P: "P \<in> set (GoPackages res)"
        "Path P = vdir v"
        "SourceFileCount P = filesWhere isGoSource (repoFiles s tree) (vdir v)"
        "TestFileCount P = filesWhere isGoTest (repoFiles s tree) (vdir v)"
        "HasTestFiles P \<longleftrightarrow> 0 < filesWhere isGoTest (repoFiles s tree) (vdir v)"
        by blast
      from filesWhere_pos [OF v, of isGoSource] filesWhere_pos [OF v, of isGoTest] go
      have "0 < (if hasSuffix (vname v) ''_test.go''
                 then filesWhere isGoTest (repoFiles s tree) (vdir v)
                 else filesWhere isGoSource (repoFiles s tree) (vdir v))"
        by (simp add: isGoSource_def isGoTest_def)
      with P show "\<exists>P\<in>set (GoPackages res). Path P = vdir v
                  \<and> SourceFileCount P = filesWhere isGoSource (repoFiles s tree) (vdir v)
                  \<and> TestFileCount P = filesWhere isGoTest (repoFiles s tree) (vdir v)
                  \<and> (HasTestFiles P \<longleftrightarrow> 0 < TestFileCount P)
                  \<and> 0 < (if hasSuffix (vname v) ''_test.go'' then TestFileCount P
                          else SourceFileCount P)"
        by (intro bexI [of _ P]) (simp_all split: if_splits)
    }
    {
      assume py: "hasSuffix (vname v) ''.py''"
      from python_package_exists [OF assms v py] obtain P
        where P: "P \<in> set (PythonPackages res)" "Path P = vdir v"
        "SourceFileCount P = filesWhere isPythonSource (repoFiles s tree) (vdir v)"
        "TestFileCount P = filesWhere isPythonTest (repoFiles s tree) (vdir v)"
        "HasTestFiles P \<longleftrightarrow> 0 < filesWhere isPythonTest (repoFiles s tree) (vdir v)"
        by blast
      from filesWhere_pos [OF v, of isPythonSource] filesWhere_pos [OF v, of isPythonTest] py
      have "0 < (if isPyTest (vname v)
                 then filesWhere isPythonTest (repoFiles s tree) (vdir v)
                 else filesWhere isPythonSource (repoFiles s tree) (vdir v))"
        by (simp add: isPythonSource_def isPythonTest_def)
      with P show "\<exists>P\<in>set (PythonPackages res). Path P = vdir v
                  \<and> SourceFileCount P = filesWhere isPythonSource (repoFiles s tree) (vdir v)
                  \<and> TestFileCount P = filesWhere isPythonTest (repoFiles s tree) (vdir v)
                  \<and> (HasTestFiles P \<longleftrightarrow> 0 < TestFileCount P)
                  \<and> 0 < (if isPyTest (vname v) then TestFileCount P else SourceFileCount P)"
        by (intro bexI [of _ P]) (simp_all split: if_splits)
    }
    {
      assume rs: "hasSuffix (vname v) ''.rs''"
      from rust_package_exists [OF assms v rs] obtain P
        where P: "P \<in> set (RustPackages res)" "Path P = vdir v"
        "SourceFileCount P = filesWhere isRustSource (repoFiles s tree) (vdir v)"
        by blast
      from filesWhere_pos [OF v, of isRustSource] rs
      have "0 < filesWhere isRustSource (repoFiles s tree) (vdir v)"
        by (simp add: isRustSource_def)
      with P show "\<exists>P\<in>set (RustPackages res). Path P = vdir v
                  \<and> SourceFileCount P = filesWhere isRustSource (repoFiles s tree) (vdir v)
                  \<and> 0 < SourceFileCount P"
        by (intro bexI [of _ P]) (simp_all split: if_splits)
    }
  qed
  show "TotalGoFiles res
          = int (length (filter (\<lambda>v. isGoSource (vname v)) (repoFiles s tree)))"
    using assms by (rule Scan_totals(2))
  show "TotalGoTests res
          = int (length (filter (\<lambda>v. isGoTest (vname v)) (repoFiles s tree)))"
    using assms by (rule Scan_file_totals(1))
  show "TotalPythonFiles res
          = int (length (filter (\<lambda>v. isPythonSource (vname v)) (repoFiles s tree)))"
    using assms by (rule Scan_file_totals(2))
  show "TotalPythonTests res
          = int (length (filter (\<lambda>v. isPythonTest (vname v)) (repoFiles s tree)))"
    using assms by (rule Scan_file_totals(3))
  show "TotalRustFiles res
          = int (length (filter (\<lambda>v. isRustSource (vname v)) (repoFiles s tree)))"
    using assms by (rule Scan_file_totals(4))
  show "(name, File c) \<in> set entries \<longrightarrow>
          \<lparr>vdir = dir, vrel = rel, vname = name, vcontent = c\<rparr>
            \<in> set (filesIn s dir rel entries)"
    by (subst filesIn_mem) blast
  show "hasPrefix name ''.'' \<longrightarrow>
          walk s dir rel name (File c) st = visitFile s dir rel name c st
          \<and> walk s dir rel name (Dir sub) st = st"
    by (simp add: walkFn_def skipped_def)
  show "isGoSource ''.helper.go''"
    by (simp add: isGoSource_def hasSuffix_def)
qed

lemma Calculate_summary:
  assumes "Calculate now sr report"
  shows "TotalBuildFiles (rep_Summary report) = (if GoPackages sr = [] then 0 else TotalBUILDs sr)"
  using assms
  by cases (simp add: rustMetrics_def pythonMetrics_def goMetrics_def newReport_def
      zeroSummary_def Let_def)

text \<open>
  Claim C10, amended. The build-file total of a scan is the number of manifest files
  that the walk met, so a directory with both \<open>BUILD\<close> and \<open>BUILD.bazel\<close> adds 2; the
  \<open>totalBuildFiles\<close> field of the report's summary equals that total when the scan has a Go
  package and is 0 otherwise; and every package has the single flag \<open>HasBuildFile\<close>, true
  exactly when its directory has a manifest file.
\<close>

theorem build_file_total:
  assumes "Scan s tree res"
  shows "TotalBUILDs res = int (length (filter (\<lambda>v. isManifest (vname v)) (repoFiles s tree)))
         \<and> (Calculate now res report \<longrightarrow>
              TotalBuildFiles (rep_Summary report)
                = (if GoPackages res = [] then 0 else TotalBUILDs res))
         \<and> (\<forall>P\<in>allPackages res.
              HasBuildFile P \<longleftrightarrow>
                (\<exists>v\<in>set (repoFiles s tree). vdir v = Path P \<and> isManifest (vname v)))"
proof (intro conjI)
  show "TotalBUILDs res = int (length (filter (\<lambda>v. isManifest (vname v)) (repoFiles s tree)))"
    using assms by (rule Scan_totals(1))
  show "Calculate now res report \<longrightarrow>
          TotalBuildFiles (rep_Summary report)
            = (if GoPackages res = [] then 0 else TotalBUILDs res)"
    by (rule impI) (rule Calculate_summary)
  show "\<forall>P\<in>allPackages res.
          HasBuildFile P \<longleftrightarrow>
            (\<exists>v\<in>set (repoFiles s tree). vdir v = Path P \<and> isManifest (vname v))"
    using package_build_flag [OF assms] by blast
qed

section \<open>Excluded directories\<close>

lemma splitSep_nosep: "sep \<notin> set p \<Longrightarrow> splitSep p = [p]"
  by (induction p) auto

lemma splitSep_append: "sep \<notin> set p \<Longrightarrow> splitSep (p @ sep # q) = p # splitSep q"
  by (induction p) auto

lemma splitSep_joinSep:
  "rel \<noteq> [] \<Longrightarrow> \<forall>x\<in>set rel. sep \<notin> set x \<Longrightarrow> splitSep (joinSep rel) = rel"
  by (induction rel rule: joinSep.induct) (simp_all add: splitSep_nosep splitSep_append)

lemma files_rel:
  "v \<in> set (filesOf s dir rel base node) \<Longrightarrow>
     \<forall>x\<in>set rel. validName x \<and> \<not> skipped s x \<Longrightarrow> validName base \<Longrightarrow> validNode node \<Longrightarrow>
     \<forall>x\<in>set (vrel v). validName x \<and> \<not> skipped s x"
  "v \<in> set (filesIn s dir rel es) \<Longrightarrow>
     \<forall>x\<in>set rel. validName x \<and> \<not> skipped s x \<Longrightarrow> validEntries es \<Longrightarrow>
     \<forall>x\<in>set (vrel v). validName x \<and> \<not> skipped s x"
  by (induction s dir rel base node and s dir rel es rule: filesOf_filesIn.induct)
     (auto split: if_splits)

lemma repoFiles_rel:
  assumes "v \<in> set (repoFiles s (Dir entries))" and "validEntries entries"
  shows "\<forall>x\<in>set (vrel v). validName x \<and> \<not> skipped s x"
  using assms files_rel(2) [of v s "repoPath s" "[]" entries]
  by (simp add: repoFiles_def split: if_splits)

lemma skipped_subtree: "skipped s base \<Longrightarrow> walk s dir rel base (Dir sub) st = st"
  by (simp add: walkFn_def)

text \<open>
  Claim C7. For a scan of a repository directory whose entry names contain no separator,
  no segment of the relative path of a package starts with \<open>.\<close>, is in the denylist or
  starts with \<open>bazel-\<close>. The relative path of a package of the repository root itself is
  \<open>.\<close>, the name that \<^verbatim>\<open>filepath.Rel\<close> gives to the root: it stands for the path with no
  segment, and every other relative path is the list of its segments joined by the
  separator. The walk leaves its state as it is on a directory with an excluded name,
  whatever the directory holds, so the files below it count nowhere. The denylist is the
  one of \<^verbatim>\<open>NewScanner\<close>.
\<close>

theorem excluded_segments:
  assumes "Scan s (Dir entries) res" and "validEntries entries" and "P \<in> allPackages res"
  shows "(RelPath P = ''.''
          \<or> (\<forall>seg\<in>set (splitSep (RelPath P)).
                \<not> hasPrefix seg ''.'' \<and> seg \<notin> set (skipDirs s) \<and> \<not> hasPrefix seg ''bazel-''))
         \<and> (skipped s base \<longrightarrow> walk s dir rel base (Dir sub) st = st)
         \<and> skipDirs (NewScanner rp) =
             [''.git'', ''bazel-bin'', ''bazel-out'', ''bazel-testlogs'', ''node_modules'',
              ''.cache'', ''vendor'', ''__pycache__'', ''target'', ''.venv'', ''venv'']"
proof (intro conjI)
  from assms(1,3) obtain dp :: dirPackages and p where "RelPath P = RelPath p"
    and "freshPkg (repoFiles s (Dir entries)) (path dp) (Some p)"
    by (rule package_origin)
  then obtain v where v: "v \<in> set (repoFiles s (Dir entries))"
    and rp: "RelPath P = relPathOf (vrel v)"
    by (auto simp: freshPkg_def)
  from repoFiles_rel [OF v assms(2)] have ok: "\<forall>x\<in>set (vrel v). validName x \<and> \<not> skipped s x" .
  show "RelPath P = ''.''
          \<or> (\<forall>seg\<in>set (splitSep (RelPath P)).
                \<not> hasPrefix seg ''.'' \<and> seg \<notin> set (skipDirs s) \<and> \<not> hasPrefix seg ''bazel-'')"
  proof (cases "vrel v = []")
    case True
    with rp show ?thesis
      by (simp add: relPathOf_def)
  next
    case False
    with ok have "splitSep (joinSep (vrel v)) = vrel v"
      by (intro splitSep_joinSep) (auto simp: validName_def)
    with False rp ok show ?thesis
      by (auto simp: relPathOf_def skipped_def)
  qed
  show "skipped s base \<longrightarrow> walk s dir rel base (Dir sub) st = st"
    by (rule impI) (rule skipped_subtree)
  show "skipDirs (NewScanner rp) =
             [''.git'', ''bazel-bin'', ''bazel-out'', ''bazel-testlogs'', ''node_modules'',
              ''.cache'', ''vendor'', ''__pycache__'', ''target'', ''.venv'', ''venv'']"
    by (simp add: NewScanner_def)
qed

lemmas scan_eval = scanInOrder_def walkRepo_def walkFn_def skipped_def visitFile_def
  checkBuild_def checkGo_def checkPython_def checkRust_def assignTargets_def assignGo_def
  assignPython_def assignRust_def sortPackages_def sortSlice_def lessRelPath_def
  NewScanner_def ex_scanner_def emptyResult_def newPackage_def relPathOf_def filepathJoin_def
  filepathBase_def filepathDir_def filepathClean_def sep_def hasPrefix_def hasSuffix_def
  parseBuildFile_def maxScanTokenSize_def dropCR_def newline_def matchHere_def skipSpace_def
  isSpace_def Let_def

section \<open>The scan on examples\<close>

lemma Calculate_in_order: "Calculate now sr (reportInOrder now sr)"
  unfolding reportInOrder_def by (rule calculate) (rule breakdown_in_order)

lemma ex_unparsed_scan:
  "scanInOrder ex_scanner ex_unparsed_tree =
     (emptyResult ''/repo'')
       \<lparr>GoPackages := [(newPackage ''/repo/svc'' ''svc'' LangGo)
                         \<lparr>HasBuildFile := True, SourceFileCount := 1\<rparr>],
        TotalBUILDs := 1, TotalGoFiles := 1\<rparr>"
  by (simp add: ex_unparsed_tree_def scan_eval)

lemma ex_unparsed_files:
  "repoFiles ex_scanner ex_unparsed_tree =
     [\<lparr>vdir = ''/repo/svc'', vrel = [''svc''], vname = ''BUILD'', vcontent = None\<rparr>,
      \<lparr>vdir = ''/repo/svc'', vrel = [''svc''], vname = ''main.go'',
        vcontent = Some ''package main''\<rparr>]"
  by (simp add: ex_unparsed_tree_def repoFiles_def scan_eval)

theorem has_build_file_iff_witness:
  "Scan ex_scanner ex_unparsed_tree (scanInOrder ex_scanner ex_unparsed_tree)
   \<and> allPackages (scanInOrder ex_scanner ex_unparsed_tree)
       = {(newPackage ''/repo/svc'' ''svc'' LangGo)\<lparr>HasBuildFile := True, SourceFileCount := 1\<rparr>}
   \<and> repoFiles ex_scanner ex_unparsed_tree =
       [\<lparr>vdir = ''/repo/svc'', vrel = [''svc''], vname = ''BUILD'', vcontent = None\<rparr>,
        \<lparr>vdir = ''/repo/svc'', vrel = [''svc''], vname = ''main.go'',
          vcontent = Some ''package main''\<rparr>]
   \<and> parseBuildFile ex_scanner None = Inl ErrOpen"
proof -
  let ?P = "(newPackage ''/repo/svc'' ''svc'' LangGo)\<lparr>HasBuildFile := True, SourceFileCount := 1\<rparr>"
  have mem: "?P \<in> allPackages (scanInOrder ex_scanner ex_unparsed_tree)"
    by (simp add: ex_unparsed_scan allPackages_def emptyResult_def)
  from has_build_file_iff [OF Scan_in_order mem] Scan_in_order [of ex_scanner ex_unparsed_tree]
  show ?thesis
    by (simp add: ex_unparsed_scan ex_unparsed_files allPackages_def
        emptyResult_def parseBuildFile_def)
qed

lemma ex_rust_scan:
  "scanInOrder ex_scanner ex_rust_tree =
     (emptyResult ''/repo'')
       \<lparr>RustPackages :=
          [(newPackage ''/repo/crate'' ''crate'' LangRust)
             \<lparr>HasBuildFile := True, HasTestFiles := True, SourceFileCount := 1,
              TestFileCount := 1, TestTargetCount := 1\<rparr>,
           (newPackage ''/repo/plain'' ''plain'' LangRust)\<lparr>SourceFileCount := 1\<rparr>],
        TotalBUILDs := 1, TotalRustFiles := 2, TotalRustTests := 1, TotalRustTestRules := 1\<rparr>"
  by (simp add: ex_rust_tree_def scan_eval)

lemma ex_rust_files:
  "repoFiles ex_scanner ex_rust_tree =
     [\<lparr>vdir = ''/repo/crate'', vrel = [''crate''], vname = ''BUILD.bazel'',
        vcontent = Some ''rust_test(''\<rparr>,
      \<lparr>vdir = ''/repo/crate'', vrel = [''crate''], vname = ''lib.rs'', vcontent = None\<rparr>,
      \<lparr>vdir = ''/repo/plain'', vrel = [''plain''], vname = ''lib.rs'', vcontent = None\<rparr>]"
  by (simp add: ex_rust_tree_def repoFiles_def scan_eval)

lemma ex_rust_manifests:
  "manifestTargets ex_scanner (repoFiles ex_scanner ex_rust_tree) ''/repo/crate''
     = Some (noTargets\<lparr>rustTests := 1\<rparr>)"
  "manifestTargets ex_scanner (repoFiles ex_scanner ex_rust_tree) ''/repo/plain'' = None"
  unfolding ex_rust_files
  by (simp_all add: manifestTargets_def isManifest_def noTargets_def scan_eval)

theorem rust_tests_from_targets_witness:
  "Scan ex_scanner ex_rust_tree (scanInOrder ex_scanner ex_rust_tree)
   \<and> map Path (RustPackages (scanInOrder ex_scanner ex_rust_tree))
       = [''/repo/crate'', ''/repo/plain'']
   \<and> manifestTargets ex_scanner (repoFiles ex_scanner ex_rust_tree) ''/repo/crate''
       = Some (noTargets\<lparr>rustTests := 1\<rparr>)
   \<and> manifestTargets ex_scanner (repoFiles ex_scanner ex_rust_tree) ''/repo/plain'' = None
   \<and> map TestTargetCount (RustPackages (scanInOrder ex_scanner ex_rust_tree)) = [1, 0]
   \<and> map HasTestFiles (RustPackages (scanInOrder ex_scanner ex_rust_tree)) = [True, False]
   \<and> map TestFileCount (RustPackages (scanInOrder ex_scanner ex_rust_tree)) = [1, 0]
   \<and> TotalRustTests (scanInOrder ex_scanner ex_rust_tree) = 1"
  using rust_tests_from_targets [OF Scan_in_order [of ex_scanner ex_rust_tree],
      of "noTargets\<lparr>rustTests := 1\<rparr>"]
    Scan_in_order [of ex_scanner ex_rust_tree]
  by (simp add: ex_rust_scan ex_rust_manifests emptyResult_def newPackage_def)

lemma ex_dot_file_scan:
  "scanInOrder ex_scanner ex_dot_file_tree =
     (emptyResult ''/repo'')
       \<lparr>GoPackages := [(newPackage ''/repo/lib'' ''lib'' LangGo)\<lparr>SourceFileCount := 1\<rparr>],
        PythonPackages := [(newPackage ''/repo/lib'' ''lib'' LangPython)\<lparr>SourceFileCount := 1\<rparr>],
        RustPackages := [(newPackage ''/repo/lib'' ''lib'' LangRust)\<lparr>SourceFileCount := 1\<rparr>],
        TotalGoFiles := 1, TotalPythonFiles := 1, TotalRustFiles := 1\<rparr>"
  by (simp add: ex_dot_file_tree_def scan_eval)

lemma ex_dot_file_files:
  "repoFiles ex_scanner ex_dot_file_tree =
     [\<lparr>vdir = ''/repo/lib'', vrel = [''lib''], vname = ''.helper.go'', vcontent = None\<rparr>,
      \<lparr>vdir = ''/repo/lib'', vrel = [''lib''], vname = ''.setup.py'', vcontent = None\<rparr>,
      \<lparr>vdir = ''/repo/lib'', vrel = [''lib''], vname = ''.util.rs'', vcontent = None\<rparr>]"
  by (simp add: ex_dot_file_tree_def repoFiles_def scan_eval)

theorem dot_file_is_classified_witness:
  "Scan ex_scanner ex_dot_file_tree (scanInOrder ex_scanner ex_dot_file_tree)
   \<and> map vname (repoFiles ex_scanner ex_dot_file_tree) = [''.helper.go'', ''.setup.py'', ''.util.rs'']
   \<and> GoPackages (scanInOrder ex_scanner ex_dot_file_tree) =
       [(newPackage ''/repo/lib'' ''lib'' LangGo)\<lparr>SourceFileCount := 1\<rparr>]
   \<and> PythonPackages (scanInOrder ex_scanner ex_dot_file_tree) =
       [(newPackage ''/repo/lib'' ''lib'' LangPython)\<lparr>SourceFileCount := 1\<rparr>]
   \<and> RustPackages (scanInOrder ex_scanner ex_dot_file_tree) =
       [(newPackage ''/repo/lib'' ''lib'' LangRust)\<lparr>SourceFileCount := 1\<rparr>]
   \<and> TotalGoFiles (scanInOrder ex_scanner ex_dot_file_tree) = 1
   \<and> TotalPythonFiles (scanInOrder ex_scanner ex_dot_file_tree) = 1
   \<and> TotalRustFiles (scanInOrder ex_scanner ex_dot_file_tree) = 1
   \<and> hasPrefix ''.helper.go'' ''.''
   \<and> walk ex_scanner ''/repo/lib'' [''lib''] ''.cfg'' (Dir [(''gen.go'', File None)])
        \<lparr>dirMap = [], result = emptyResult ''/repo''\<rparr>
       = \<lparr>dirMap = [], result = emptyResult ''/repo''\<rparr>"
  using dot_file_is_classified [OF Scan_in_order [of ex_scanner ex_dot_file_tree],
      where name = "''.cfg''" and c = None and entries = "[]" and dir = "''/repo/lib''"
        and rel = "[''lib'']" and sub = "[(''gen.go'', File None)]"
        and st = "\<lparr>dirMap = [], result = emptyResult ''/repo''\<rparr>"]
    Scan_in_order [of ex_scanner ex_dot_file_tree]
  by (simp add: ex_dot_file_scan ex_dot_file_files emptyResult_def hasPrefix_def)

lemma ex_two_manifests_scan:
  "scanInOrder ex_scanner ex_two_manifests =
     (emptyResult ''/repo'')
       \<lparr>GoPackages := [(newPackage ''/repo'' ''.'' LangGo)
                         \<lparr>HasBuildFile := True, SourceFileCount := 1, LibraryTargets := 1\<rparr>],
        TotalBUILDs := 2, TotalGoFiles := 1\<rparr>"
  by (simp add: ex_two_manifests_def scan_eval)

theorem build_file_total_witness:
  "Scan ex_scanner ex_two_manifests (scanInOrder ex_scanner ex_two_manifests)
   \<and> Calculate [] (scanInOrder ex_scanner ex_two_manifests)
       (reportInOrder [] (scanInOrder ex_scanner ex_two_manifests))
   \<and> TotalBUILDs (scanInOrder ex_scanner ex_two_manifests) = 2
   \<and> map HasBuildFile (GoPackages (scanInOrder ex_scanner ex_two_manifests)) = [True]
   \<and> TotalBuildFiles (rep_Summary (reportInOrder [] (scanInOrder ex_scanner ex_two_manifests))) = 2"
  using build_file_total [OF Scan_in_order [of ex_scanner ex_two_manifests], of "[]"
      "reportInOrder [] (scanInOrder ex_scanner ex_two_manifests)"]
    Scan_in_order [of ex_scanner ex_two_manifests]
    Calculate_in_order [of "[]" "scanInOrder ex_scanner ex_two_manifests"]
  by (simp add: ex_two_manifests_scan emptyResult_def)

lemma ex_python_only_scan:
  "scanInOrder ex_scanner ex_python_only =
     (emptyResult ''/repo'')
       \<lparr>PythonPackages := [(newPackage ''/repo'' ''.'' LangPython)
                         \<lparr>HasBuildFile := True, SourceFileCount := 1, LibraryTargets := 1\<rparr>],
        TotalBUILDs := 2, TotalPythonFiles := 1\<rparr>"
  by (simp add: ex_python_only_def scan_eval)

text \<open>
  Against claim C10 as stated: a repository whose root holds \<open>BUILD\<close>, \<open>BUILD.bazel\<close> and one
  Python file has build-file total 2 in the scan and a Python package with the flag
  \<open>HasBuildFile\<close>, but the \<open>totalBuildFiles\<close> field of the report's summary is 0, since the
  summary is filled for Go packages only.
\<close>

theorem build_file_total_counterexample:
  "Scan ex_scanner ex_python_only (scanInOrder ex_scanner ex_python_only)
   \<and> Calculate [] (scanInOrder ex_scanner ex_python_only)
       (reportInOrder [] (scanInOrder ex_scanner ex_python_only))
   \<and> TotalBUILDs (scanInOrder ex_scanner ex_python_only) = 2
   \<and> map HasBuildFile (PythonPackages (scanInOrder ex_scanner ex_python_only)) = [True]
   \<and> TotalBuildFiles (rep_Summary (reportInOrder [] (scanInOrder ex_scanner ex_python_only))) = 0"
  using Scan_in_order [of ex_scanner ex_python_only]
    Calculate_in_order [of "[]" "scanInOrder ex_scanner ex_python_only"]
  by (simp add: ex_python_only_scan emptyResult_def
      reportInOrder_def rustMetrics_def pythonMetrics_def goMetrics_def newReport_def
      zeroSummary_def Let_def)

lemma ex_excluded_scan:
  "scanInOrder ex_scanner (Dir ex_excluded_entries) =
     (emptyResult ''/repo'')
       \<lparr>GoPackages := [(newPackage ''/repo/src'' ''src'' LangGo)\<lparr>SourceFileCount := 1\<rparr>],
        TotalGoFiles := 1\<rparr>"
  by (simp add: ex_excluded_entries_def scan_eval)

theorem excluded_segments_witness:
  "Scan ex_scanner (Dir ex_excluded_entries) (scanInOrder ex_scanner (Dir ex_excluded_entries))
   \<and> validEntries ex_excluded_entries
   \<and> allPackages (scanInOrder ex_scanner (Dir ex_excluded_entries))
       = {(newPackage ''/repo/src'' ''src'' LangGo)\<lparr>SourceFileCount := 1\<rparr>}
   \<and> splitSep ''src'' = [''src'']
   \<and> skipped ex_scanner ''vendor''
   \<and> walk ex_scanner ''/repo/src'' [''src''] ''vendor'' (Dir [(''dep.go'', File None)])
        \<lparr>dirMap = [], result = emptyResult ''/repo''\<rparr>
       = \<lparr>dirMap = [], result = emptyResult ''/repo''\<rparr>"
proof -
  let ?P = "(newPackage ''/repo/src'' ''src'' LangGo)\<lparr>SourceFileCount := 1\<rparr>"
  have valid: "validEntries ex_excluded_entries"
    by (simp add: ex_excluded_entries_def validName_def sep_def)
  have mem: "?P \<in> allPackages (scanInOrder ex_scanner (Dir ex_excluded_entries))"
    by (simp add: ex_excluded_scan allPackages_def emptyResult_def)
  have sk: "skipped ex_scanner ''vendor''"
    by (simp add: skipped_def ex_scanner_def NewScanner_def)
  from excluded_segments [OF Scan_in_order valid mem, of "''vendor''" "''/repo/src''"
      "[''src'']" "[(''dep.go'', File None)]" "\<lparr>dirMap = [], result = emptyResult ''/repo''\<rparr>"]
  show ?thesis
    using sk Scan_in_order [of ex_scanner "Dir ex_excluded_entries"]
    by (simp add: valid ex_excluded_scan allPackages_def emptyResult_def
        newPackage_def sep_def)
qed

section \<open>The manifest target counter on examples\<close>

lemmas parse_eval = parseBuildFile_def NewScanner_def Let_def maxScanTokenSize_def dropCR_def
  newline_def matchHere_def skipSpace_def isSpace_def hasPrefix_def

text \<open>
  Claim C3, amended. For the manifest with the lines \<^verbatim>\<open>load("@rules")\<close>, \<^verbatim>\<open>go_test(\<close> and
  \<^verbatim>\<open>  go_test(\<close> the Go test-role count is 2 (the two matches are the second and the
  third line), and for a manifest with the single line \<^verbatim>\<open># go_test(\<close> it is 0: the pattern
  allows only white space between the start of the line and the rule name.
\<close>

theorem manifest_scenario:
  "parseBuildFile (NewScanner rp) (Some ex_manifest) = Inr (noTargets\<lparr>goTests := 2\<rparr>)
   \<and> FindAllString (goTestRegex (NewScanner rp)) ex_manifest = [''go_test('', ''  go_test('']
   \<and> parseBuildFile (NewScanner rp) (Some ex_comment) = Inr noTargets
   \<and> FindAllString (goTestRegex (NewScanner rp)) (ex_comment @ [newline]) = []"
proof -
  let ?load = "''load('' @ [CHR 0x22] @ ''@rules'' @ [CHR 0x22] @ '')''"
  have lines: "scanLines [] ex_manifest = [?load, ''go_test('', ''  go_test('']"
    by (simp add: ex_manifest_def newline_def)
  have rebuilt: "concat (map (\<lambda>l. dropCR l @ [newline]) (scanLines [] ex_manifest)) = ex_manifest"
    by (simp add: lines dropCR_def) (simp add: ex_manifest_def)
  have short: "\<not> list_ex (\<lambda>l. maxScanTokenSize \<le> length l) (scanLines [] ex_manifest)"
    by (simp add: lines maxScanTokenSize_def)
  have go: "findFrom ''go_test'' True ex_manifest = [''go_test('', ''  go_test('']"
    by (simp add: ex_manifest_def newline_def matchHere_def skipSpace_def isSpace_def
        hasPrefix_def)
  have other: "findFrom name True ex_manifest = []"
    if "name \<in> {''go_library'', ''go_binary'', ''py_test'', ''py_library'', ''py_binary'',
                  ''rust_test'', ''rust_library'', ''rust_binary''}" for name
    using that
    by (auto simp: ex_manifest_def newline_def matchHere_def skipSpace_def isSpace_def
        hasPrefix_def)
  have first: "parseBuildFile (NewScanner rp) (Some ex_manifest) = Inr (noTargets\<lparr>goTests := 2\<rparr>)"
    using short by (simp add: parseBuildFile_def Let_def rebuilt go other NewScanner_def noTargets_def)
  have clines: "scanLines [] ex_comment = [ex_comment]"
    by (simp add: ex_comment_def newline_def)
  have hash: "matchHere name (CHR ''#'' # rest) = None" if "name \<noteq> []" "hd name \<noteq> CHR ''#''"
    for name rest
    using that by (cases name) (simp_all add: matchHere_def skipSpace_def isSpace_def hasPrefix_def)
  have none: "findFrom name True (ex_comment @ [newline]) = []"
    if "name \<noteq> []" "hd name \<noteq> CHR ''#''" for name
    using hash [OF that] by (simp add: ex_comment_def newline_def)
  have second: "parseBuildFile (NewScanner rp) (Some ex_comment) = Inr noTargets"
    by (simp add: parseBuildFile_def Let_def clines dropCR_def maxScanTokenSize_def none
        NewScanner_def noTargets_def) (simp add: ex_comment_def)
  from first second go none [of "''go_test''"] show ?thesis
    by (simp add: NewScanner_def)
qed

text \<open>
  Against claim C3 as stated: the count for the single line \<^verbatim>\<open># go_test(\<close> is not 1.
\<close>

theorem manifest_comment_counterexample:
  "map_sum id goTests (parseBuildFile ex_scanner (Some ex_comment)) \<noteq> Inr 1"
  by (simp add: ex_comment_def ex_scanner_def parse_eval)

end
